theory Spec2Isabelle
  imports Complex_Main
begin

section \<open>The platform: a document of elements\<close>

text \<open>
  \<^verbatim>\<open>lib/gamejs/display.js\<close> keeps three module variables and otherwise works on the
  browser's document. The document is modelled as the forest of its element nodes in
  tree order. An element carries the properties the module reads or writes; its
  \<open>uid\<close> is the identity of the JavaScript object (what \<^verbatim>\<open>==\<close> compares), and its
  \<open>textContent\<close> is the data of its text children. The page is an HTML document and its
  elements are HTML elements; name spaces are not modelled.

  Exceptions are values: a call returns \<open>(Inl e, d)\<close> when it throws \<open>e\<close>, where
  \<open>d\<close> is the document as the call left it (JavaScript does not roll back), and
  \<open>(Inr v, d)\<close> when it returns \<open>v\<close>.
\<close>

datatype error = TypeError | HierarchyRequestError

datatype handler = FullScreenChange | ClickHandler nat

datatype request = FullScreenRequest nat | PointerLockRequest nat

text \<open>
  The vendor-prefixed methods of an element. \<open>True\<close> stands for a function value,
  \<open>False\<close> for \<^verbatim>\<open>undefined\<close>: the module only tests them for truthiness and calls them.
\<close>

record methods =
  requestFullScreen :: bool
  mozRequestFullScreen :: bool
  webkitRequestFullScreen :: bool
  requestPointerLock :: bool
  mozRequestPointerLock :: bool
  webkitRequestPointerLock :: bool

record elem =
  uid :: nat
  tag :: string
  eid :: string
  tabindex :: "string option"
  innerHTML :: string
  textContent :: string
  width :: "int option"
  height :: "int option"
  textAlign :: string
  display :: string
  elisteners :: "(string \<times> handler) list"
  meths :: methods

datatype node = Node (el: elem) (kids: "node list")

text \<open>
  \<open>children\<close> are the element children of the document node itself (in a page, the one
  \<^verbatim>\<open>html\<close> element). \<open>focused\<close> is the element that was given focus, if any.
  \<open>prototype\<close> says which of the prefixed methods the platform gives to every new element.
  \<open>clientSize\<close> and \<open>boundingRect\<close> are the platform's layout, which the module only reads.
  \<open>requests\<close> logs the fullscreen and pointer-lock requests handed to the platform: they
  are fire-and-forget, their outcome arrives later as an event.
\<close>

record document =
  children :: "node list"
  focused :: "nat option"
  listeners :: "(string \<times> handler) list"
  fullScreenElement :: "nat option"
  mozFullScreenElement :: "nat option"
  webkitIsFullScreen :: bool
  webkitDisplayingFullscreen :: bool
  requests :: "request list"
  next_uid :: nat
  prototype :: methods
  clientSize :: "elem \<Rightarrow> int \<times> int"
  boundingRect :: "elem \<Rightarrow> real \<times> real"

subsection \<open>Tree order\<close>

text \<open>The first node in tree order (preorder) whose element has the id \<open>i\<close>.\<close>

fun find_node :: "string \<Rightarrow> node list \<Rightarrow> node option" where
  "find_node i [] = None"
| "find_node i (Node e cs # ns) =
     (if eid e = i then Some (Node e cs)
      else case find_node i cs of
             Some x \<Rightarrow> Some x
           | None \<Rightarrow> find_node i ns)"

text \<open>
  \<open>at_first i h ns\<close> rewrites the forest at the first node in tree order with id \<open>i\<close>:
  the node \<open>x\<close> and its following siblings \<open>post\<close> are replaced by \<open>h x post\<close>.
  Without such a node the forest stays as it is.
\<close>

fun at_first :: "string \<Rightarrow> (node \<Rightarrow> node list \<Rightarrow> node list) \<Rightarrow> node list \<Rightarrow> node list" where
  "at_first i h [] = []"
| "at_first i h (Node e cs # ns) =
     (if eid e = i then h (Node e cs) ns
      else case find_node i cs of
             Some x \<Rightarrow> Node e (at_first i h cs) # ns
           | None \<Rightarrow> Node e cs # at_first i h ns)"

text \<open>Whether the first node with id \<open>i\<close> is a child of the document node itself.\<close>

fun at_top :: "string \<Rightarrow> node list \<Rightarrow> bool" where
  "at_top i [] = False"
| "at_top i (Node e cs # ns) =
     (eid e = i \<or> (find_node i cs = None \<and> at_top i ns))"

fun uids :: "node list \<Rightarrow> nat list" where
  "uids [] = []"
| "uids (Node e cs # ns) = uid e # uids cs @ uids ns"

fun count_id :: "string \<Rightarrow> node list \<Rightarrow> nat" where
  "count_id i [] = 0"
| "count_id i (Node e cs # ns) =
     (if eid e = i then 1 else 0) + count_id i cs + count_id i ns"

subsection \<open>Document operations\<close>

definition getElementById :: "document \<Rightarrow> string \<Rightarrow> elem option" where
  "getElementById d i = map_option el (find_node i (children d))"

text \<open>
  \<^verbatim>\<open>document.createElement\<close>: a new object, not yet in the document. A canvas starts
  300 by 150.
\<close>

definition createElement :: "string \<Rightarrow> document \<Rightarrow> elem \<times> document" where
  "createElement t d =
     (\<lparr>uid = next_uid d, tag = t, eid = [], tabindex = None, innerHTML = [], textContent = [],
       width = (if t = ''canvas'' then Some 300 else None),
       height = (if t = ''canvas'' then Some 150 else None),
       textAlign = [], display = [], elisteners = [], meths = prototype d\<rparr>,
      d\<lparr>next_uid := Suc (next_uid d)\<rparr>)"

text \<open>
  An assignment to a property of the element that \<^verbatim>\<open>getElementById(i)\<close> returned:
  the reference denotes the first element with that id, and the model addresses it so.
\<close>

definition modify :: "string \<Rightarrow> (elem \<Rightarrow> elem) \<Rightarrow> document \<Rightarrow> document" where
  "modify i f d =
     d\<lparr>children := at_first i (\<lambda>x post. Node (f (el x)) (kids x) # post) (children d)\<rparr>"

text \<open>
  \<^verbatim>\<open>document.body\<close> is the first \<^verbatim>\<open>body\<close> or \<^verbatim>\<open>frameset\<close> child of the \<^verbatim>\<open>html\<close>
  document element, or null.
\<close>

definition is_body :: "node \<Rightarrow> bool" where
  "is_body n = (tag (el n) = ''body'' \<or> tag (el n) = ''frameset'')"

definition body :: "document \<Rightarrow> node option" where
  "body d =
     (case children d of
        [] \<Rightarrow> None
      | Node h cs # rest \<Rightarrow> if tag h = ''html'' then find is_body cs else None)"

fun append_in_body :: "node \<Rightarrow> node list \<Rightarrow> node list" where
  "append_in_body n [] = []"
| "append_in_body n (Node e cs # ns) =
     (if is_body (Node e cs) then Node e (cs @ [n]) # ns
      else Node e cs # append_in_body n ns)"

text \<open>\<^verbatim>\<open>document.body.appendChild(n)\<close>; a null body is a TypeError.\<close>

definition body_appendChild :: "node \<Rightarrow> document \<Rightarrow> error + document" where
  "body_appendChild n d =
     (case body d of
        None \<Rightarrow> Inl TypeError
      | Some b \<Rightarrow>
          (case children d of
             [] \<Rightarrow> Inl TypeError
           | Node h cs # rest \<Rightarrow>
               Inr (d\<lparr>children := Node h (append_in_body n cs) # rest\<rparr>)))"

text \<open>
  \<^verbatim>\<open>x.parentNode.insertBefore(n, x)\<close> and \<^verbatim>\<open>x.parentNode.appendChild(n)\<close> for the
  element \<open>x\<close> with id \<open>i\<close> and a new element \<open>n\<close>. When \<open>x\<close> is a child of the document
  node, the document already has its one element child and refuses another.
\<close>

definition parent_insertBefore :: "node \<Rightarrow> string \<Rightarrow> document \<Rightarrow> error + document" where
  "parent_insertBefore n i d =
     (if at_top i (children d) then Inl HierarchyRequestError
      else Inr (d\<lparr>children := at_first i (\<lambda>x post. n # x # post) (children d)\<rparr>))"

definition parent_appendChild :: "node \<Rightarrow> string \<Rightarrow> document \<Rightarrow> error + document" where
  "parent_appendChild n i d =
     (if at_top i (children d) then Inl HierarchyRequestError
      else Inr (d\<lparr>children := at_first i (\<lambda>x post. x # post @ [n]) (children d)\<rparr>))"

text \<open>
  \<^verbatim>\<open>w.appendChild(x)\<close> for the elements \<open>w\<close> with id \<open>j\<close> and \<open>x\<close> with id \<open>i\<close>, where
  \<open>x\<close> is in the document and not an ancestor of \<open>w\<close>: \<open>x\<close> is removed from its parent and
  becomes the last child of \<open>w\<close>. An element that leaves its place loses the focus, and so
  does everything below it.
\<close>

definition appendChild_move :: "string \<Rightarrow> string \<Rightarrow> document \<Rightarrow> document" where
  "appendChild_move j i d =
     (case find_node i (children d) of
        None \<Rightarrow> d
      | Some x \<Rightarrow>
          d\<lparr>children :=
               at_first j (\<lambda>w post. Node (el w) (kids w @ [x]) # post)
                 (at_first i (\<lambda>x post. post) (children d)),
            focused :=
               (case focused d of
                  None \<Rightarrow> None
                | Some u \<Rightarrow> if u \<in> set (uids [x]) then None else Some u)\<rparr>)"

text \<open>
  \<^verbatim>\<open>e.focus()\<close>. The module calls it on the canvas only, which is then in the document
  and has just been given a tabindex; the element becomes the focused one. Style sheets
  and rendering are not modelled: the canvas is taken to be displayed.
\<close>

definition focus :: "elem \<Rightarrow> document \<Rightarrow> document" where
  "focus e d = d\<lparr>focused := Some (uid e)\<rparr>"

text \<open>\<^verbatim>\<open>document.activeElement\<close>: the focused element, else the body, else null.\<close>

definition activeElement :: "document \<Rightarrow> nat option" where
  "activeElement d =
     (case focused d of
        Some u \<Rightarrow> Some u
      | None \<Rightarrow> map_option (\<lambda>b. uid (el b)) (body d))"

text \<open>
  \<^verbatim>\<open>addEventListener(type, f, false)\<close>: a listener that is already registered with the
  same type and the same function object is not added again.
\<close>

definition addEventListener ::
  "string \<times> handler \<Rightarrow> (string \<times> handler) list \<Rightarrow> (string \<times> handler) list" where
  "addEventListener l ls = (if l \<in> set ls then ls else ls @ [l])"

text \<open>
  An assignment to \<^verbatim>\<open>style.textAlign\<close>: the platform stores null as the empty string,
  which is also what it reports for an alignment that is not set.
\<close>

definition style_value :: "string option \<Rightarrow> string" where
  "style_value v = (case v of None \<Rightarrow> [] | Some t \<Rightarrow> t)"

text \<open>
  \<^verbatim>\<open>canvas.getContext('2d')\<close>: the drawing context of a canvas, named by the canvas;
  other elements have no such method.
\<close>

definition getContext :: "elem \<Rightarrow> error + nat" where
  "getContext e = (if tag e = ''canvas'' then Inr (uid e) else Inl TypeError)"

text \<open>
  \<^verbatim>\<open>document.title\<close> is an accessor of the platform. Its title element is the first
  \<^verbatim>\<open>title\<close> element of the document in tree order, and the head is the first \<^verbatim>\<open>head\<close>
  child of the \<^verbatim>\<open>html\<close> document element. Reading gives the text of the title element, with
  ASCII white space (tab, line feed, form feed, carriage return, space) stripped at both
  ends and every run of it inside collapsed to one space; without a title element it gives
  the empty string.
\<close>

definition is_space :: "char \<Rightarrow> bool" where
  "is_space c = (c = CHR 0x09 \<or> c = CHR 0x0A \<or> c = CHR 0x0C \<or> c = CHR 0x0D \<or> c = CHR 0x20)"

text \<open>
  \<open>collapse started gap cs\<close>: \<open>started\<close> says that a character has been put out, \<open>gap\<close>
  that white space has been passed since.
\<close>

fun collapse :: "bool \<Rightarrow> bool \<Rightarrow> string \<Rightarrow> string" where
  "collapse started gap [] = []"
| "collapse started gap (c # cs) =
     (if is_space c then collapse started True cs
      else if started \<and> gap then CHR 0x20 # c # collapse True False cs
      else c # collapse True False cs)"

definition strip_and_collapse :: "string \<Rightarrow> string" where
  "strip_and_collapse t = collapse False False t"

fun title_node :: "node list \<Rightarrow> node option" where
  "title_node [] = None"
| "title_node (Node e cs # ns) =
     (if tag e = ''title'' then Some (Node e cs)
      else case title_node cs of
             Some x \<Rightarrow> Some x
           | None \<Rightarrow> title_node ns)"

definition document_title :: "document \<Rightarrow> string" where
  "document_title d =
     (case title_node (children d) of
        None \<Rightarrow> []
      | Some x \<Rightarrow> strip_and_collapse (textContent (el x)))"

definition is_head :: "node \<Rightarrow> bool" where
  "is_head n = (tag (el n) = ''head'')"

definition head :: "document \<Rightarrow> node option" where
  "head d =
     (case children d of
        [] \<Rightarrow> None
      | Node h cs # rest \<Rightarrow> if tag h = ''html'' then find is_head cs else None)"

fun append_in_head :: "node \<Rightarrow> node list \<Rightarrow> node list" where
  "append_in_head n [] = []"
| "append_in_head n (Node e cs # ns) =
     (if is_head (Node e cs) then Node e (cs @ [n]) # ns
      else Node e cs # append_in_head n ns)"

text \<open>The children of the title element are replaced by the one text \<open>t\<close>.\<close>

fun set_title_text :: "string \<Rightarrow> node list \<Rightarrow> node list" where
  "set_title_text t [] = []"
| "set_title_text t (Node e cs # ns) =
     (if tag e = ''title'' then Node (e\<lparr>textContent := t\<rparr>) [] # ns
      else case title_node cs of
             Some x \<Rightarrow> Node e (set_title_text t cs) # ns
           | None \<Rightarrow> Node e cs # set_title_text t ns)"

text \<open>
  The assignment \<^verbatim>\<open>document.title = t\<close>: with neither a title element nor a head it
  does nothing; it gives the text \<open>t\<close> to the title element, which it makes first, and
  appends to the head, when there is none.
\<close>

definition set_document_title :: "string \<Rightarrow> document \<Rightarrow> document" where
  "set_document_title t d =
     (case title_node (children d) of
        Some x \<Rightarrow> d\<lparr>children := set_title_text t (children d)\<rparr>
      | None \<Rightarrow>
          (case head d of
             None \<Rightarrow> d
           | Some the_head \<Rightarrow>
               (let (e, d1) = createElement ''title'' d
                in case children d1 of
                     [] \<Rightarrow> d1
                   | Node h cs # rest \<Rightarrow>
                       d1\<lparr>children :=
                            Node h (append_in_head (Node (e\<lparr>textContent := t\<rparr>) []) cs) # rest\<rparr>)))"

text \<open>
  The assignments \<^verbatim>\<open>e.width = v\<close> and \<^verbatim>\<open>e.height = v\<close> of an integer \<open>v\<close>. The width and
  the height of a canvas are unsigned longs that reflect its attributes: \<open>v\<close> is taken
  modulo \<open>2^32\<close>, and what is then above \<open>2^31 - 1\<close> is replaced by the default, 300 for the
  width and 150 for the height. An element of another kind gets a property of its own,
  which holds \<open>v\<close> as it is.
\<close>

definition reflect_dimension :: "int \<Rightarrow> int \<Rightarrow> int" where
  "reflect_dimension dflt v =
     (let n = v mod 4294967296 in if n \<le> 2147483647 then n else dflt)"

definition set_width :: "int \<Rightarrow> elem \<Rightarrow> elem" where
  "set_width v e =
     (if tag e = ''canvas'' then e\<lparr>width := Some (reflect_dimension 300 v)\<rparr>
      else e\<lparr>width := Some v\<rparr>)"

definition set_height :: "int \<Rightarrow> elem \<Rightarrow> elem" where
  "set_height v e =
     (if tag e = ''canvas'' then e\<lparr>height := Some (reflect_dimension 150 v)\<rparr>
      else e\<lparr>height := Some v\<rparr>)"

section \<open>The module \<^verbatim>\<open>lib/gamejs/display.js\<close>\<close>

text \<open>
  The ids of the canvas and of the loading indicator are constants of the module; those
  of the fullscreen toggle and of the wrapper are written out where they are used, and
  get a name here.
\<close>

definition CANVAS_ID :: string where
  "CANVAS_ID = ''gjs-canvas''"

definition LOADER_ID :: string where
  "LOADER_ID = ''gjs-loader''"

definition TOGGLE_ID :: string where
  "TOGGLE_ID = ''gjs-fullscreen-toggle''"

definition WRAPPER_ID :: string where
  "WRAPPER_ID = ''gjs-canvas-wrapper''"

definition DISABLE_SMOOTHING :: int where
  "DISABLE_SMOOTHING = 2"

text \<open>
  Modelled from the spec: the \<^verbatim>\<open>Surface\<close> class of \<^verbatim>\<open>lib/gamejs.js\<close>, which the
  module requires and which is not part of the sources at hand. The spec gives it
  "a constructor taking \<^verbatim>\<open>[width, height]\<close>, mutable bindings to a rendering target and
  its drawing context, and two capability toggles for enabling/disabling smoothing".
  \<open>smoothing\<close> is \<open>None\<close> until one of the toggles has been called.
\<close>

record surface =
  size :: "int \<times> int"
  s_canvas :: "nat option"
  s_context :: "nat option"
  smoothing :: "bool option"

definition new_Surface :: "int \<times> int \<Rightarrow> surface" where
  "new_Surface dims = \<lparr>size = dims, s_canvas = None, s_context = None, smoothing = None\<rparr>"

definition smooth :: "surface \<Rightarrow> surface" where
  "smooth sf = sf\<lparr>smoothing := Some True\<rparr>"

definition noSmooth :: "surface \<Rightarrow> surface" where
  "noSmooth sf = sf\<lparr>smoothing := Some False\<rparr>"

text \<open>
  The state of a page that has loaded the module: the document, the module variables
  \<^verbatim>\<open>SURFACE\<close>, \<^verbatim>\<open>_SURFACE_SMOOTHING\<close> and \<^verbatim>\<open>oldWrapperTextAlign\<close> (\<open>None\<close> is null),
  the Surface objects allocated so far (a reference is an index into \<open>surfaces\<close>), and
  the number of click-handler closures allocated so far.
\<close>

record state =
  doc :: document
  SURFACE :: "nat option"
  SURFACE_SMOOTHING :: bool
  oldWrapperTextAlign :: "string option"
  surfaces :: "surface list"
  closures :: nat

definition getCanvas :: "document \<Rightarrow> (error + elem) \<times> document" where
  "getCanvas d =
     (case (case getElementById d CANVAS_ID of
              Some c \<Rightarrow> Inr (c, d)
            | None \<Rightarrow>
                (let (c0, d1) = createElement ''canvas'' d;
                     c1 = c0\<lparr>eid := CANVAS_ID\<rparr>
                 in case body_appendChild (Node c1 []) d1 of
                      Inl e \<Rightarrow> Inl (e, d1)
                    | Inr d2 \<Rightarrow> Inr (c1, d2)))
      of
        Inl (e, d') \<Rightarrow> (Inl e, d')
      | Inr (displayCanvas, d') \<Rightarrow>
          (let d3 = modify CANVAS_ID (\<lambda>e. e\<lparr>tabindex := Some ''1''\<rparr>) d';
               displayCanvas' = displayCanvas\<lparr>tabindex := Some ''1''\<rparr>
           in (Inr displayCanvas', focus displayCanvas' d3)))"

definition getFullScreenToggle :: "document \<Rightarrow> (error + elem) \<times> document" where
  "getFullScreenToggle d =
     (case getElementById d TOGGLE_ID of
        Some fullScreenButton \<Rightarrow> (Inr fullScreenButton, d)
      | None \<Rightarrow>
          (let (b0, d1) = createElement ''button'' d;
               fullScreenButton = b0\<lparr>innerHTML := ''Fullscreen'', eid := TOGGLE_ID\<rparr>
           in case getCanvas d1 of
                (Inl e, d2) \<Rightarrow> (Inl e, d2)
              | (Inr canvas, d2) \<Rightarrow>
                  (case parent_insertBefore (Node fullScreenButton []) CANVAS_ID d2 of
                     Inl e \<Rightarrow> (Inl e, d2)
                   | Inr d3 \<Rightarrow>
                       (let (br, d4) = createElement ''br'' d3
                        in case parent_insertBefore (Node br []) CANVAS_ID d4 of
                             Inl e \<Rightarrow> (Inl e, d4)
                           | Inr d5 \<Rightarrow> (Inr fullScreenButton, d5)))))"

definition getFullScreenWrapper :: "document \<Rightarrow> (error + elem) \<times> document" where
  "getFullScreenWrapper d =
     (case getElementById d WRAPPER_ID of
        Some wrapper \<Rightarrow> (Inr wrapper, d)
      | None \<Rightarrow>
          (let (w0, d1) = createElement ''div'' d;
               wrapper = w0\<lparr>eid := WRAPPER_ID\<rparr>
           in case getCanvas d1 of
                (Inl e, d2) \<Rightarrow> (Inl e, d2)
              | (Inr canvas, d2) \<Rightarrow>
                  (case parent_appendChild (Node wrapper []) CANVAS_ID d2 of
                     Inl e \<Rightarrow> (Inl e, d2)
                   | Inr d3 \<Rightarrow> (Inr wrapper, appendChild_move WRAPPER_ID CANVAS_ID d3))))"

text \<open>The truthiness of what \<^verbatim>\<open>isFullScreen()\<close> returns; its one caller tests just that.\<close>

definition isFullScreen :: "document \<Rightarrow> bool" where
  "isFullScreen d =
     (fullScreenElement d \<noteq> None \<or> mozFullScreenElement d \<noteq> None \<or>
      webkitIsFullScreen d \<or> webkitDisplayingFullscreen d)"

definition enableFullScreen :: "document \<Rightarrow> (error + bool) \<times> document" where
  "enableFullScreen d =
     (case getFullScreenWrapper d of
        (Inl e, d1) \<Rightarrow> (Inl e, d1)
      | (Inr wrapper, d1) \<Rightarrow>
          (let m = meths wrapper;
               r = (requestFullScreen m \<or> mozRequestFullScreen m \<or> webkitRequestFullScreen m);
               d2 = modify WRAPPER_ID (\<lambda>e. e\<lparr>meths := (meths e)\<lparr>requestFullScreen := r\<rparr>\<rparr>) d1
           in if \<not> r then (Inr False, d2)
              else (Inr True, d2\<lparr>requests := requests d2 @ [FullScreenRequest (uid wrapper)]\<rparr>)))"

definition enablePointerLock :: "document \<Rightarrow> (error + unit) \<times> document" where
  "enablePointerLock d =
     (case getFullScreenWrapper d of
        (Inl e, d1) \<Rightarrow> (Inl e, d1)
      | (Inr wrapper, d1) \<Rightarrow>
          (let m = meths wrapper;
               r = (requestPointerLock m \<or> mozRequestPointerLock m \<or> webkitRequestPointerLock m);
               d2 = modify WRAPPER_ID (\<lambda>e. e\<lparr>meths := (meths e)\<lparr>requestPointerLock := r\<rparr>\<rparr>) d1
           in if r then (Inr (), d2\<lparr>requests := requests d2 @ [PointerLockRequest (uid wrapper)]\<rparr>)
              else (Inr (), d2)))"

definition fullScreenChange :: "state \<Rightarrow> (error + unit) \<times> state" where
  "fullScreenChange s =
     (if isFullScreen (doc s) then
        (case enablePointerLock (doc s) of
           (Inl e, d1) \<Rightarrow> (Inl e, s\<lparr>doc := d1\<rparr>)
         | (Inr u, d1) \<Rightarrow>
             (case getFullScreenWrapper d1 of
                (Inl e, d2) \<Rightarrow> (Inl e, s\<lparr>doc := d2\<rparr>)
              | (Inr w, d2) \<Rightarrow>
                  (let s2 = s\<lparr>doc := d2, oldWrapperTextAlign := Some (textAlign w)\<rparr>
                   in case getFullScreenWrapper d2 of
                        (Inl e, d3) \<Rightarrow> (Inl e, s2\<lparr>doc := d3\<rparr>)
                      | (Inr w', d3) \<Rightarrow>
                          (Inr (),
                           s2\<lparr>doc := modify WRAPPER_ID
                                        (\<lambda>e. e\<lparr>textAlign := style_value (Some ''center'')\<rparr>) d3\<rparr>))))
      else
        (case getFullScreenWrapper (doc s) of
           (Inl e, d1) \<Rightarrow> (Inl e, s\<lparr>doc := d1\<rparr>)
         | (Inr w, d1) \<Rightarrow>
             (Inr (),
              s\<lparr>doc := modify WRAPPER_ID
                          (\<lambda>e. e\<lparr>textAlign := style_value (oldWrapperTextAlign s)\<rparr>) d1\<rparr>)))"

text \<open>
  The click listener that \<^verbatim>\<open>init\<close> puts on the toggle: it calls \<^verbatim>\<open>enableFullScreen()\<close>,
  drops the result and prevents the default action of the event.
\<close>

definition toggleClick :: "document \<Rightarrow> (error + unit) \<times> document" where
  "toggleClick d =
     (case enableFullScreen d of
        (Inl e, d1) \<Rightarrow> (Inl e, d1)
      | (Inr b, d1) \<Rightarrow> (Inr (), d1))"

definition init :: "state \<Rightarrow> (error + unit) \<times> state" where
  "init s =
     (case getFullScreenWrapper (doc s) of
        (Inl e, d1) \<Rightarrow> (Inl e, s\<lparr>doc := d1\<rparr>)
      | (Inr w, d1) \<Rightarrow>
          (case getFullScreenToggle d1 of
             (Inl e, d2) \<Rightarrow> (Inl e, s\<lparr>doc := d2\<rparr>)
           | (Inr fullScreenToggle, d2) \<Rightarrow>
               (let d3 = modify TOGGLE_ID
                           (\<lambda>e. e\<lparr>elisteners :=
                                    addEventListener (''click'', ClickHandler (closures s))
                                      (elisteners e)\<rparr>) d2;
                    s1 = s\<lparr>closures := Suc (closures s)\<rparr>;
                    d4 = d3\<lparr>listeners :=
                              addEventListener (''fullscreenchange'', FullScreenChange)
                                (listeners d3)\<rparr>;
                    d5 = d4\<lparr>listeners :=
                              addEventListener (''webkitfullscreenchange'', FullScreenChange)
                                (listeners d4)\<rparr>;
                    d6 = d5\<lparr>listeners :=
                              addEventListener (''mozfullscreenchange'', FullScreenChange)
                                (listeners d5)\<rparr>
                in case getCanvas d6 of
                     (Inl e, d7) \<Rightarrow> (Inl e, s1\<lparr>doc := d7\<rparr>)
                   | (Inr c, d7) \<Rightarrow>
                       (case getElementById d7 LOADER_ID of
                          Some loader \<Rightarrow>
                            (Inr (), s1\<lparr>doc := modify LOADER_ID (\<lambda>e. e\<lparr>display := ''none''\<rparr>) d7\<rparr>)
                        | None \<Rightarrow> (Inr (), s1\<lparr>doc := d7\<rparr>)))))"

text \<open>
  \<^verbatim>\<open>document.activeElement == getCanvas()\<close>: the left operand is read first, then
  \<^verbatim>\<open>getCanvas\<close> runs.
\<close>

definition hasFocus :: "document \<Rightarrow> (error + bool) \<times> document" where
  "hasFocus d =
     (let a = activeElement d
      in case getCanvas d of
           (Inl e, d1) \<Rightarrow> (Inl e, d1)
         | (Inr c, d1) \<Rightarrow> (Inr (a = Some (uid c)), d1))"

definition isSmoothingEnabled :: "state \<Rightarrow> bool" where
  "isSmoothingEnabled s = (SURFACE_SMOOTHING s = True)"

definition update_surface :: "nat \<Rightarrow> (surface \<Rightarrow> surface) \<Rightarrow> state \<Rightarrow> state" where
  "update_surface r f s = s\<lparr>surfaces := (surfaces s)[r := f (surfaces s ! r)]\<rparr>"

definition getSurface :: "state \<Rightarrow> (error + nat) \<times> state" where
  "getSurface s =
     (case SURFACE s of
        None \<Rightarrow>
          (case getCanvas (doc s) of
             (Inl e, d1) \<Rightarrow> (Inl e, s\<lparr>doc := d1\<rparr>)
           | (Inr canvas, d1) \<Rightarrow>
               (let r = length (surfaces s);
                    s1 = s\<lparr>doc := d1,
                           surfaces := surfaces s @ [new_Surface (clientSize d1 canvas)],
                           SURFACE := Some r\<rparr>;
                    s2 = update_surface r (\<lambda>sf. sf\<lparr>s_canvas := Some (uid canvas)\<rparr>) s1
                in case getContext canvas of
                     Inl e \<Rightarrow> (Inl e, s2)
                   | Inr ctx \<Rightarrow>
                       (let s3 = update_surface r (\<lambda>sf. sf\<lparr>s_context := Some ctx\<rparr>) s2
                        in if SURFACE_SMOOTHING s3 then (Inr r, update_surface r smooth s3)
                           else (Inr r, update_surface r noSmooth s3))))
      | Some r \<Rightarrow> (Inr r, s))"

text \<open>
  The dimensions are a pair of integers. \<open>flags\<close> is \<open>None\<close> when the argument is
  omitted. Only the number 2 is \<^verbatim>\<open>=== DISABLE_SMOOTHING\<close>.
\<close>

definition setMode :: "int \<times> int \<Rightarrow> int option \<Rightarrow> state \<Rightarrow> (error + nat) \<times> state" where
  "setMode dimensions flags s =
     (case getCanvas (doc s) of
        (Inl e, d1) \<Rightarrow> (Inl e, s\<lparr>doc := d1\<rparr>)
      | (Inr canvas, d1) \<Rightarrow>
          (let d2 = modify CANVAS_ID (set_width (fst dimensions)) d1;
               d3 = modify CANVAS_ID (set_height (snd dimensions)) d2
           in getSurface (s\<lparr>doc := d3, SURFACE_SMOOTHING := (flags \<noteq> Some DISABLE_SMOOTHING)\<rparr>)))"

definition setCaption :: "string \<Rightarrow> 'icon \<Rightarrow> state \<Rightarrow> state" where
  "setCaption t icon s = s\<lparr>doc := set_document_title t (doc s)\<rparr>"

definition getCanvasOffset :: "document \<Rightarrow> (error + real \<times> real) \<times> document" where
  "getCanvasOffset d =
     (case getCanvas d of
        (Inl e, d1) \<Rightarrow> (Inl e, d1)
      | (Inr c, d1) \<Rightarrow> (Inr (boundingRect d1 c), d1))"

subsection \<open>Program runs\<close>

text \<open>
  What can happen to the state of the page, one step at a time: a call of an exported
  function, a fullscreen-change event, a click on the toggle, or anything else changing
  the document (the user, the browser, other scripts). The module variables are private:
  only the module's own functions assign them. What other code does to a Surface it was
  handed is not part of a run.
\<close>

datatype 'icon call =
    Init
  | SetMode "int \<times> int" "int option"
  | SetCaption string 'icon
  | GetSurface
  | HasFocus
  | IsSmoothingEnabled
  | GetCanvasOffset
  | FullScreenChangeEvent
  | ToggleClick
  | Platform "document \<Rightarrow> document"

fun step :: "'icon call \<Rightarrow> state \<Rightarrow> state" where
  "step Init s = snd (init s)"
| "step (SetMode dimensions flags) s = snd (setMode dimensions flags s)"
| "step (SetCaption t icon) s = setCaption t icon s"
| "step GetSurface s = snd (getSurface s)"
| "step HasFocus s = s\<lparr>doc := snd (hasFocus (doc s))\<rparr>"
| "step IsSmoothingEnabled s = s"
| "step GetCanvasOffset s = s\<lparr>doc := snd (getCanvasOffset (doc s))\<rparr>"
| "step FullScreenChangeEvent s = snd (fullScreenChange s)"
| "step ToggleClick s = s\<lparr>doc := snd (toggleClick (doc s))\<rparr>"
| "step (Platform f) s = s\<lparr>doc := f (doc s)\<rparr>"

fun run :: "'icon call list \<Rightarrow> state \<Rightarrow> state" where
  "run [] s = s"
| "run (c # cs) s = run cs (step c s)"

text \<open>
  \<open>no_enter cs s\<close>: in the run \<open>cs\<close> from \<open>s\<close>, the fullscreen-change handler never runs
  while the platform reports fullscreen.
\<close>

fun no_enter :: "'icon call list \<Rightarrow> state \<Rightarrow> bool" where
  "no_enter [] s = True"
| "no_enter (c # cs) s =
     ((case c of FullScreenChangeEvent \<Rightarrow> \<not> isFullScreen (doc s) | _ \<Rightarrow> True) \<and>
      no_enter cs (step c s))"

subsection \<open>Notions used in the properties\<close>

text \<open>
  \<open>init_times n\<close>: the program \<^verbatim>\<open>init(); ...; init();\<close> with \<open>n\<close> calls. An exception ends it.
\<close>

fun init_times :: "nat \<Rightarrow> state \<Rightarrow> (error + unit) \<times> state" where
  "init_times 0 s = (Inr (), s)"
| "init_times (Suc n) s =
     (case init s of
        (Inl e, s') \<Rightarrow> (Inl e, s')
      | (Inr u, s') \<Rightarrow> init_times n s')"

text \<open>
  \<open>rooted d\<close>: the document has its one document element, and that is not the canvas.
  \<open>canvas_available d\<close>: the document has the canvas, or a body to put a new one in.
\<close>

definition rooted :: "document \<Rightarrow> bool" where
  "rooted d = (case children d of [Node h cs] \<Rightarrow> eid h \<noteq> CANVAS_ID | _ \<Rightarrow> False)"

definition canvas_available :: "document \<Rightarrow> bool" where
  "canvas_available d = (getElementById d CANVAS_ID \<noteq> None \<or> body d \<noteq> None)"

text \<open>
  \<open>kept_or_created j d d'\<close>: from \<open>d\<close> to \<open>d'\<close> no element with id \<open>j\<close> went away, and
  at most one came, and that only if there was none.
\<close>

definition kept_or_created :: "string \<Rightarrow> document \<Rightarrow> document \<Rightarrow> bool" where
  "kept_or_created j d d' =
     (count_id j (children d) \<le> count_id j (children d') \<and>
      count_id j (children d') \<le> max 1 (count_id j (children d)))"

text \<open>
  \<open>without_titles ns\<close>: the forest \<open>ns\<close> with every title element, and what is below it,
  left out.
\<close>

fun without_titles :: "node list \<Rightarrow> node list" where
  "without_titles [] = []"
| "without_titles (Node e cs # ns) =
     (if tag e = ''title'' then without_titles ns
      else Node e (without_titles cs) # without_titles ns)"

text \<open>
  \<open>canvas_focused d\<close>: the document has the canvas, its tabindex is set and it is the
  active element.
\<close>

definition canvas_focused :: "document \<Rightarrow> bool" where
  "canvas_focused d =
     (case getElementById d CANVAS_ID of
        None \<Rightarrow> False
      | Some c \<Rightarrow> tabindex c = Some ''1'' \<and> activeElement d = Some (uid c))"

section \<open>Example pages\<close>

definition no_methods :: methods where
  "no_methods =
     \<lparr>requestFullScreen = False, mozRequestFullScreen = False, webkitRequestFullScreen = False,
      requestPointerLock = False, mozRequestPointerLock = False,
      webkitRequestPointerLock = False\<rparr>"

definition webkit_methods :: methods where
  "webkit_methods =
     \<lparr>requestFullScreen = False, mozRequestFullScreen = False, webkitRequestFullScreen = True,
      requestPointerLock = False, mozRequestPointerLock = False,
      webkitRequestPointerLock = True\<rparr>"

definition element :: "nat \<Rightarrow> string \<Rightarrow> string \<Rightarrow> methods \<Rightarrow> elem" where
  "element u t i m =
     \<lparr>uid = u, tag = t, eid = i, tabindex = None, innerHTML = [], textContent = [], width = None,
      height = None,
      textAlign = [], display = [], elisteners = [], meths = m\<rparr>"

text \<open>
  A page with a head and a body that holds \<open>content\<close>; nothing is focused. Every element
  has the methods \<open>m\<close>. The layout gives an element the client size of its width and
  height properties and puts it at the origin.
\<close>

definition page :: "methods \<Rightarrow> node list \<Rightarrow> document" where
  "page m content =
     \<lparr>children =
        [Node (element 0 ''html'' [] m)
           [Node (element 1 ''head'' [] m) [],
            Node (element 2 ''body'' [] m) content]],
      focused = None, listeners = [],
      fullScreenElement = None, mozFullScreenElement = None,
      webkitIsFullScreen = False, webkitDisplayingFullscreen = False,
      requests = [], next_uid = 10, prototype = m,
      clientSize = (\<lambda>e. (case width e of None \<Rightarrow> 0 | Some w \<Rightarrow> w,
                          case height e of None \<Rightarrow> 0 | Some h \<Rightarrow> h)),
      boundingRect = (\<lambda>e. (0, 0))\<rparr>"

text \<open>The module as it is right after loading: no Surface, smoothing on, nothing saved.\<close>

definition loaded :: "document \<Rightarrow> state" where
  "loaded d =
     \<lparr>doc = d, SURFACE = None, SURFACE_SMOOTHING = True, oldWrapperTextAlign = None,
      surfaces = [], closures = 0\<rparr>"

text \<open>A document of an \<^verbatim>\<open>html\<close> element with a body and no head.\<close>

definition headless_page :: document where
  "headless_page =
     (page no_methods [])
       \<lparr>children :=
          [Node (element 0 ''html'' [] no_methods)
             [Node (element 2 ''body'' [] no_methods) []]]\<rparr>"

text \<open>A page whose body holds the wrapper, aligned \<open>a\<close>, with the canvas inside.\<close>

definition wrapper_elem :: "methods \<Rightarrow> string \<Rightarrow> elem" where
  "wrapper_elem m a = (element 3 ''div'' WRAPPER_ID m)\<lparr>textAlign := a\<rparr>"

definition wrapped_page :: "methods \<Rightarrow> string \<Rightarrow> document" where
  "wrapped_page m a =
     page m [Node (wrapper_elem m a) [Node (element 4 ''canvas'' CANVAS_ID m) []]]"

text \<open>The module loaded on such a page, which WebKit shows in fullscreen.\<close>

definition fullscreen_state :: state where
  "fullscreen_state = loaded ((wrapped_page webkit_methods ''left'')\<lparr>webkitIsFullScreen := True\<rparr>)"

text \<open>
  A page whose body holds a menu link and the canvas; the link has the focus.
\<close>

definition linked_page :: document where
  "linked_page =
     (page no_methods
        [Node (element 5 ''a'' ''menu'' no_methods) [],
         Node (element 4 ''canvas'' CANVAS_ID no_methods) []])\<lparr>focused := Some 5\<rparr>"

text \<open>
  The module on that page after a first \<^verbatim>\<open>getSurface()\<close>, the user having then gone back
  to the link.
\<close>

definition cached_state :: state where
  "cached_state =
     run [GetSurface :: unit call, Platform (\<lambda>d. d\<lparr>focused := Some 5\<rparr>)] (loaded linked_page)"

section \<open>Properties\<close>

subsection \<open>The document tree\<close>

lemma find_node_eid: "find_node i ns = Some x \<Longrightarrow> eid (el x) = i"
  by (induction i ns rule: find_node.induct) (auto split: if_splits option.splits)

lemma find_node_None_count: "(find_node i ns = None) = (count_id i ns = 0)"
  by (induction i ns rule: find_node.induct) (auto split: option.splits)

lemma at_first_absent: "find_node i ns = None \<Longrightarrow> at_first i h ns = ns"
  by (induction i h ns rule: at_first.induct) (auto split: option.splits if_splits)

lemma count_id_append: "count_id j (xs @ ys) = count_id j xs + count_id j ys"
  by (induction j xs rule: count_id.induct) auto

lemma count_at_first:
  assumes "find_node i ns = Some x"
    and "\<And>post. count_id j (h x post) + a = count_id j (x # post) + b"
  shows "count_id j (at_first i h ns) + a = count_id j ns + b"
  using assms
proof (induction i h ns rule: at_first.induct)
  case (1 i h)
  then show ?case by simp
next
  case (2 i h e cs ns)
  show ?case
  proof (cases "eid e = i")
    case True
    with 2(3) have x: "x = Node e cs" by simp
    from 2(4)[of ns] show ?thesis unfolding x using True by simp
  next
    case False
    show ?thesis
    proof (cases "find_node i cs")
      case None
      with False 2(3) have "find_node i ns = Some x" by simp
      from 2(1)[OF False None this 2(4)] show ?thesis using False None by simp
    next
      case (Some y)
      with False 2(3) have "find_node i cs = Some x" by simp
      from 2(2)[OF False Some this 2(4)] show ?thesis using False Some by simp
    qed
  qed
qed

lemma find_el_modify_same:
  assumes "\<And>e. eid (f e) = eid e"
  shows "map_option el (find_node i (at_first i (\<lambda>x post. Node (f (el x)) (kids x) # post) ns))
         = map_option f (map_option el (find_node i ns))"
  using assms
  by (induction i "(\<lambda>x post. Node (f (el x)) (kids x) # post)" ns rule: at_first.induct)
     (auto split: option.splits if_splits)

lemma find_el_modify_other:
  assumes "\<And>e. eid (f e) = eid e" and "j \<noteq> i"
  shows "map_option el (find_node j (at_first i (\<lambda>x post. Node (f (el x)) (kids x) # post) ns))
         = map_option el (find_node j ns)"
  using assms
  by (induction i "(\<lambda>x post. Node (f (el x)) (kids x) # post)" ns rule: at_first.induct)
     (auto split: option.splits if_splits)


lemma at_first_modify_id:
  "find_node i ns = Some x \<Longrightarrow> f (el x) = el x \<Longrightarrow>
     at_first i (\<lambda>x post. Node (f (el x)) (kids x) # post) ns = ns"
  by (induction i "(\<lambda>x post. Node (f (el x)) (kids x) # post)" ns rule: at_first.induct)
     (auto split: option.splits if_splits)

lemma modify_id:
  assumes "getElementById d i = Some w" and "f w = w"
  shows "modify i f d = d"
proof -
  from assms(1) obtain x where x: "find_node i (children d) = Some x" and "el x = w"
    by (auto simp: getElementById_def)
  with assms(2) have "f (el x) = el x" by simp
  from at_first_modify_id[where f = f, OF x this] show ?thesis by (simp add: modify_def)
qed

lemma getElementById_modify_same:
  "(\<And>e. eid (f e) = eid e) \<Longrightarrow>
     getElementById (modify i f d) i = map_option f (getElementById d i)"
  by (simp add: getElementById_def modify_def find_el_modify_same)

lemma getElementById_modify_other:
  "(\<And>e. eid (f e) = eid e) \<Longrightarrow> j \<noteq> i \<Longrightarrow>
     getElementById (modify i f d) j = getElementById d j"
  by (simp add: getElementById_def modify_def find_el_modify_other)

lemma getElementById_children:
  "children d' = children d \<Longrightarrow> getElementById d' i = getElementById d i"
  by (simp add: getElementById_def)

lemma getFullScreenWrapper_found:
  "getElementById d WRAPPER_ID = Some w \<Longrightarrow> getFullScreenWrapper d = (Inr w, d)"
  by (simp add: getFullScreenWrapper_def)

lemma modify_fields [simp]:
  "focused (modify i f d) = focused d"
  "listeners (modify i f d) = listeners d"
  "requests (modify i f d) = requests d"
  "next_uid (modify i f d) = next_uid d"
  "fullScreenElement (modify i f d) = fullScreenElement d"
  "mozFullScreenElement (modify i f d) = mozFullScreenElement d"
  "webkitIsFullScreen (modify i f d) = webkitIsFullScreen d"
  "webkitDisplayingFullscreen (modify i f d) = webkitDisplayingFullscreen d"
  by (simp_all add: modify_def)

subsection \<open>The canvas\<close>

lemma find_node_append:
  "find_node i (xs @ ys) = (case find_node i xs of Some x \<Rightarrow> Some x | None \<Rightarrow> find_node i ys)"
  by (induction i xs rule: find_node.induct) (auto split: option.splits)

lemma find_node_append_in_body:
  "find_node i cs = None \<Longrightarrow> find is_body cs \<noteq> None \<Longrightarrow>
     find_node i (append_in_body n cs) = find_node i [n]"
  by (induction n cs rule: append_in_body.induct)
     (auto simp: find_node_append split: option.splits if_splits)

lemma getCanvas_found:
  assumes "getElementById d CANVAS_ID = Some c"
  shows "getCanvas d =
    (Inr (c\<lparr>tabindex := Some ''1''\<rparr>),
     focus (c\<lparr>tabindex := Some ''1''\<rparr>) (modify CANVAS_ID (\<lambda>e. e\<lparr>tabindex := Some ''1''\<rparr>) d))"
  using assms by (simp add: getCanvas_def Let_def)

lemma getCanvas_no_body:
  assumes "getElementById d CANVAS_ID = None" and "body d = None"
  shows "getCanvas d = (Inl TypeError, d\<lparr>next_uid := Suc (next_uid d)\<rparr>)"
  using assms by (simp add: getCanvas_def createElement_def body_appendChild_def body_def)

lemma body_createElement [simp]: "body (snd (createElement t d)) = body d"
  by (simp add: createElement_def body_def)

lemma children_createElement [simp]: "children (snd (createElement t d)) = children d"
  by (simp add: createElement_def)

lemma getElementById_createElement [simp]:
  "getElementById (snd (createElement t d)) i = getElementById d i"
  by (simp add: getElementById_def)

lemma body_appendChild_find:
  assumes "getElementById d i = None" and "body d \<noteq> None"
  shows "\<exists>d'. body_appendChild n d = Inr d' \<and>
           find_node i (children d') = find_node i [n] \<and>
           focused d' = focused d \<and> next_uid d' = next_uid d"
proof -
  from assms(2) obtain h cs rest where ch: "children d = Node h cs # rest"
    and html: "tag h = ''html''" and b: "find is_body cs \<noteq> None"
    by (auto simp: body_def split: list.splits node.splits if_splits)
  from assms(1) ch have none: "eid h \<noteq> i" "find_node i cs = None" "find_node i rest = None"
    by (auto simp: getElementById_def split: if_splits option.splits)
  have "find_node i (Node h (append_in_body n cs) # rest) = find_node i [n]"
    using none find_node_append_in_body[OF none(2) b, of n]
    by (cases n) (auto split: option.splits)
  then show ?thesis using ch html b assms(2)
    by (auto simp: body_appendChild_def body_def)
qed

lemma getCanvas_created:
  assumes "getElementById d CANVAS_ID = None" and "body d \<noteq> None"
  shows "\<exists>c d2. c = (fst (createElement ''canvas'' d))\<lparr>eid := CANVAS_ID, tabindex := Some ''1''\<rparr> \<and>
           getCanvas d = (Inr c, focus c (modify CANVAS_ID (\<lambda>e. e\<lparr>tabindex := Some ''1''\<rparr>) d2)) \<and>
           body_appendChild (Node ((fst (createElement ''canvas'' d))\<lparr>eid := CANVAS_ID\<rparr>) [])
             (snd (createElement ''canvas'' d)) = Inr d2 \<and>
           getElementById d2 CANVAS_ID = Some ((fst (createElement ''canvas'' d))\<lparr>eid := CANVAS_ID\<rparr>)"
proof -
  define c1 where "c1 = (fst (createElement ''canvas'' d))\<lparr>eid := CANVAS_ID\<rparr>"
  define d1 where "d1 = snd (createElement ''canvas'' d)"
  have "getElementById d1 CANVAS_ID = None" "body d1 \<noteq> None"
    using assms by (simp_all add: d1_def)
  from body_appendChild_find[OF this, of "Node c1 []"]
  obtain d2 where d2: "body_appendChild (Node c1 []) d1 = Inr d2"
    and f2: "find_node CANVAS_ID (children d2) = find_node CANVAS_ID [Node c1 []]"
    by blast
  have "eid c1 = CANVAS_ID" by (simp add: c1_def)
  with f2 have g2: "getElementById d2 CANVAS_ID = Some c1"
    by (simp add: getElementById_def)
  have "getCanvas d = (Inr (c1\<lparr>tabindex := Some ''1''\<rparr>),
      focus (c1\<lparr>tabindex := Some ''1''\<rparr>) (modify CANVAS_ID (\<lambda>e. e\<lparr>tabindex := Some ''1''\<rparr>) d2))"
    using assms(1) d2 unfolding c1_def d1_def
    by (simp add: getCanvas_def Let_def case_prod_unfold)
  with d2 g2 show ?thesis unfolding c1_def d1_def by simp
qed

lemma getCanvas_Inr:
  assumes "getCanvas d = (Inr c, d')"
  shows "getElementById d' CANVAS_ID = Some c \<and> tabindex c = Some ''1'' \<and>
         focused d' = Some (uid c) \<and> eid c = CANVAS_ID"
proof (cases "getElementById d CANVAS_ID")
  case (Some c0)
  from getCanvas_found[OF Some] assms
  have c: "c = c0\<lparr>tabindex := Some ''1''\<rparr>"
    and d': "d' = focus c (modify CANVAS_ID (\<lambda>e. e\<lparr>tabindex := Some ''1''\<rparr>) d)"
    by simp_all
  from Some have "eid c0 = CANVAS_ID"
    by (auto simp: getElementById_def dest: find_node_eid)
  moreover have "getElementById d' CANVAS_ID = Some c"
    using Some getElementById_children[of d' "modify CANVAS_ID (\<lambda>e. e\<lparr>tabindex := Some ''1''\<rparr>) d" CANVAS_ID]
    by (simp add: d' c focus_def getElementById_modify_same)
  ultimately show ?thesis by (simp add: c d' focus_def)
next
  case None
  show ?thesis
  proof (cases "body d")
    case None': None
    from getCanvas_no_body[OF None None'] assms show ?thesis by simp
  next
    case (Some b)
    then have "body d \<noteq> None" by simp
    from getCanvas_created[OF None this] assms
    obtain d2 where c: "c = (fst (createElement ''canvas'' d))\<lparr>eid := CANVAS_ID, tabindex := Some ''1''\<rparr>"
      and d': "d' = focus c (modify CANVAS_ID (\<lambda>e. e\<lparr>tabindex := Some ''1''\<rparr>) d2)"
      and g2: "getElementById d2 CANVAS_ID = Some ((fst (createElement ''canvas'' d))\<lparr>eid := CANVAS_ID\<rparr>)"
      by auto
    have "getElementById d' CANVAS_ID = Some c"
      using g2 getElementById_children[of d' "modify CANVAS_ID (\<lambda>e. e\<lparr>tabindex := Some ''1''\<rparr>) d2" CANVAS_ID]
      by (simp add: d' c focus_def getElementById_modify_same)
    then show ?thesis by (simp add: c d' focus_def)
  qed
qed

lemma getCanvas_ok:
  assumes "getElementById d CANVAS_ID \<noteq> None \<or> body d \<noteq> None"
  shows "\<exists>c d'. getCanvas d = (Inr c, d')"
proof (cases "getElementById d CANVAS_ID")
  case (Some c0)
  from getCanvas_found[OF Some] show ?thesis by blast
next
  case None
  with assms have "body d \<noteq> None" by simp
  from getCanvas_created[OF None this] show ?thesis by blast
qed

subsection \<open>The document title\<close>

lemma without_titles_append:
  "without_titles (xs @ ys) = without_titles xs @ without_titles ys"
  by (induction xs rule: without_titles.induct) auto

lemma without_titles_set_title_text:
  "without_titles (set_title_text t ns) = without_titles ns"
  by (induction t ns rule: set_title_text.induct) (auto split: option.splits)

lemma without_titles_append_in_head:
  "tag e = ''title'' \<Longrightarrow>
     without_titles (append_in_head (Node e []) cs) = without_titles cs"
  by (induction "Node e []" cs rule: append_in_head.induct)
     (auto simp: without_titles_append is_head_def)

lemma title_node_set_title_text:
  "title_node ns = Some x \<Longrightarrow>
     title_node (set_title_text t ns) = Some (Node ((el x)\<lparr>textContent := t\<rparr>) [])"
  by (induction t ns rule: set_title_text.induct) (auto split: option.splits if_splits)

lemma title_node_append:
  "title_node (xs @ ys) = (case title_node xs of Some x \<Rightarrow> Some x | None \<Rightarrow> title_node ys)"
  by (induction xs rule: title_node.induct) (auto split: option.splits)

lemma title_node_append_in_head:
  "title_node cs = None \<Longrightarrow> find is_head cs \<noteq> None \<Longrightarrow>
     title_node (append_in_head n cs) = title_node [n]"
  by (induction n cs rule: append_in_head.induct)
     (auto simp: title_node_append is_head_def split: option.splits if_splits)

lemma collapse_no_space:
  "\<forall>c\<in>set t. \<not> is_space c \<Longrightarrow> collapse started False t = t"
  by (induction t arbitrary: started) auto

lemma set_document_title_with_title:
  assumes "title_node (children d) = Some x"
  shows "set_document_title t d = d\<lparr>children := set_title_text t (children d)\<rparr>"
  using assms by (simp add: set_document_title_def)

lemma set_document_title_without:
  assumes "title_node (children d) = None" and "head d = None"
  shows "set_document_title t d = d"
  using assms by (simp add: set_document_title_def)

lemma set_document_title_created:
  assumes "title_node (children d) = None" and "head d \<noteq> None"
  shows "\<exists>h cs rest. children d = Node h cs # rest \<and> find is_head cs \<noteq> None \<and>
           set_document_title t d =
             d\<lparr>next_uid := Suc (next_uid d),
               children := Node h (append_in_head
                 (Node ((fst (createElement ''title'' d))\<lparr>textContent := t\<rparr>) []) cs) # rest\<rparr>"
  using assms
  by (auto simp: set_document_title_def head_def createElement_def
      split: list.splits node.splits if_splits)

subsection \<open>The module variables\<close>

lemma getSurface_cached: "SURFACE s = Some r \<Longrightarrow> getSurface s = (Inr r, s)"
  by (simp add: getSurface_def)

lemma getSurface_returns:
  "fst (getSurface s) = Inr r \<Longrightarrow> SURFACE (snd (getSurface s)) = Some r"
  by (auto simp: getSurface_def update_surface_def Let_def
      split: option.splits prod.splits sum.splits if_splits)

lemma setMode_cached:
  assumes "SURFACE s = Some r"
  shows "SURFACE (snd (setMode dims fl s)) = Some r"
    and "surfaces (snd (setMode dims fl s)) = surfaces s"
    and "fst (setMode dims fl s) = Inr r' \<Longrightarrow> r' = r"
  using assms by (auto simp: setMode_def getSurface_cached Let_def split: prod.splits sum.splits)

lemma init_surface:
  "SURFACE (snd (init s)) = SURFACE s" "surfaces (snd (init s)) = surfaces s"
  by (simp_all add: init_def Let_def split: option.splits prod.splits sum.splits)

lemma fullScreenChange_surface:
  "SURFACE (snd (fullScreenChange s)) = SURFACE s"
  "surfaces (snd (fullScreenChange s)) = surfaces s"
  by (simp_all add: fullScreenChange_def Let_def split: prod.splits sum.splits)

lemma step_cached:
  assumes "SURFACE s = Some r"
  shows "SURFACE (step c s) = Some r \<and> surfaces (step c s) = surfaces s"
  using assms
  by (cases c)
     (simp_all add: getSurface_cached setMode_cached init_surface fullScreenChange_surface
        setCaption_def)

lemma run_cached:
  "SURFACE s = Some r \<Longrightarrow> SURFACE (run cs s) = Some r \<and> surfaces (run cs s) = surfaces s"
proof (induction cs arbitrary: s)
  case Nil
  then show ?case by simp
next
  case (Cons c cs)
  from step_cached[OF Cons.prems, of c] Cons.IH[of "step c s"] show ?case by simp
qed

lemma getSurface_old: "oldWrapperTextAlign (snd (getSurface s)) = oldWrapperTextAlign s"
  by (simp add: getSurface_def update_surface_def Let_def split: option.splits prod.splits sum.splits)

lemma setMode_old: "oldWrapperTextAlign (snd (setMode dims fl s)) = oldWrapperTextAlign s"
  by (simp add: setMode_def getSurface_old Let_def split: prod.splits sum.splits)

lemma init_old: "oldWrapperTextAlign (snd (init s)) = oldWrapperTextAlign s"
  by (simp add: init_def Let_def split: option.splits prod.splits sum.splits)

lemma fullScreenChange_old:
  "\<not> isFullScreen (doc s) \<Longrightarrow> oldWrapperTextAlign (snd (fullScreenChange s)) = oldWrapperTextAlign s"
  by (simp add: fullScreenChange_def split: prod.splits sum.splits)

lemma step_old:
  "(case c of FullScreenChangeEvent \<Rightarrow> \<not> isFullScreen (doc s) | _ \<Rightarrow> True) \<Longrightarrow>
     oldWrapperTextAlign (step c s) = oldWrapperTextAlign s"
  by (cases c) (simp_all add: getSurface_old setMode_old init_old fullScreenChange_old setCaption_def)

lemma run_old: "no_enter cs s \<Longrightarrow> oldWrapperTextAlign (run cs s) = oldWrapperTextAlign s"
  by (induction cs arbitrary: s) (simp_all add: step_old)

subsection \<open>Calls that go through the canvas\<close>

lemma activeElement_focused: "focused d = Some u \<Longrightarrow> activeElement d = Some u"
  by (simp add: activeElement_def)

lemma canvas_focusedI:
  "getElementById d CANVAS_ID = Some c \<Longrightarrow> tabindex c = Some ''1'' \<Longrightarrow>
     focused d = Some (uid c) \<Longrightarrow> canvas_focused d"
  by (simp add: canvas_focused_def activeElement_focused)

lemma getCanvas_focuses:
  assumes "getCanvas d = (Inr c, d')"
  shows "canvas_focused d'"
  using getCanvas_Inr[OF assms] by (auto intro: canvas_focusedI)

lemma hasFocus_Inr:
  "fst (hasFocus d) = Inr b \<Longrightarrow> \<exists>c. getCanvas d = (Inr c, snd (hasFocus d))"
  by (auto simp: hasFocus_def Let_def split: prod.splits sum.splits)

lemma getCanvasOffset_Inr:
  "fst (getCanvasOffset d) = Inr xy \<Longrightarrow> \<exists>c. getCanvas d = (Inr c, snd (getCanvasOffset d))"
  by (auto simp: getCanvasOffset_def split: prod.splits sum.splits)

lemma getSurface_Inr_fresh:
  "SURFACE s = None \<Longrightarrow> fst (getSurface s) = Inr r \<Longrightarrow>
     \<exists>c. getCanvas (doc s) = (Inr c, doc (snd (getSurface s)))"
  by (auto simp: getSurface_def update_surface_def Let_def
      split: prod.splits sum.splits if_splits)

lemma canvas_modify:
  assumes "getElementById d CANVAS_ID = Some c"
    and "\<And>e. eid (f e) = eid e"
  shows "getElementById (modify CANVAS_ID f d) CANVAS_ID = Some (f c)"
  using assms by (simp add: getElementById_modify_same)

lemma reflect_in_range:
  "0 \<le> v \<Longrightarrow> v \<le> 2147483647 \<Longrightarrow> reflect_dimension dflt v = v"
  by (simp add: reflect_dimension_def)

lemma dimensions_set:
  "width (set_height h (set_width w e))
     = Some (if tag e = ''canvas'' then reflect_dimension 300 w else w)"
  "height (set_height h (set_width w e))
     = Some (if tag e = ''canvas'' then reflect_dimension 150 h else h)"
  by (simp_all add: set_width_def set_height_def)

lemma dimension_fields [simp]:
  "eid (set_width v e) = eid e" "eid (set_height v e) = eid e"
  "uid (set_width v e) = uid e" "uid (set_height v e) = uid e"
  "tag (set_width v e) = tag e" "tag (set_height v e) = tag e"
  "tabindex (set_width v e) = tabindex e" "tabindex (set_height v e) = tabindex e"
  by (simp_all add: set_width_def set_height_def)

lemma setMode_Inr:
  assumes "fst (setMode dims fl s) = Inr r"
  shows "canvas_focused (doc (snd (setMode dims fl s)))"
proof -
  from assms obtain c d1 where g: "getCanvas (doc s) = (Inr c, d1)"
    by (auto simp: setMode_def split: prod.splits sum.splits)
  define d3 where "d3 = modify CANVAS_ID (set_height (snd dims))
    (modify CANVAS_ID (set_width (fst dims)) d1)"
  define s' where "s' = s\<lparr>doc := d3, SURFACE_SMOOTHING := (fl \<noteq> Some DISABLE_SMOOTHING)\<rparr>"
  have sm: "setMode dims fl s = getSurface s'"
    using g by (simp add: setMode_def Let_def d3_def s'_def)
  show ?thesis
  proof (cases "SURFACE s'")
    case None
    from getSurface_Inr_fresh[OF None] assms sm
    obtain c' where "getCanvas (doc s') = (Inr c', doc (snd (getSurface s')))" by auto
    from getCanvas_focuses[OF this] sm show ?thesis by simp
  next
    case (Some r0)
    from getCanvas_Inr[OF g] have c: "getElementById d1 CANVAS_ID = Some c"
      "tabindex c = Some ''1''" "focused d1 = Some (uid c)" by simp_all
    have "getElementById d3 CANVAS_ID
        = Some (set_height (snd dims) (set_width (fst dims) c))"
      unfolding d3_def using c(1) by (simp add: canvas_modify)
    moreover have "focused d3 = focused d1" by (simp add: d3_def)
    ultimately have "canvas_focused d3" using c(2,3) by (auto intro: canvas_focusedI)
    then show ?thesis using sm getSurface_cached[OF Some] by (simp add: s'_def)
  qed
qed

lemma init_Inr:
  assumes "fst (init s) = Inr u"
  shows "canvas_focused (doc (snd (init s)))"
proof -
  from assms obtain d6 c d7 where g: "getCanvas d6 = (Inr c, d7)"
    and d: "doc (snd (init s)) = d7 \<or>
            doc (snd (init s)) = modify LOADER_ID (\<lambda>e. e\<lparr>display := ''none''\<rparr>) d7"
    by (auto simp: init_def Let_def split: prod.splits sum.splits option.splits)
  from getCanvas_Inr[OF g] have c: "getElementById d7 CANVAS_ID = Some c"
    "tabindex c = Some ''1''" "focused d7 = Some (uid c)" by simp_all
  have "LOADER_ID \<noteq> CANVAS_ID" by (simp add: LOADER_ID_def CANVAS_ID_def)
  then have "getElementById (modify LOADER_ID (\<lambda>e. e\<lparr>display := ''none''\<rparr>) d7) CANVAS_ID = Some c"
    using c(1) by (simp add: getElementById_modify_other)
  with c d show ?thesis by (auto intro: canvas_focusedI)
qed

lemma getCanvas_tag:
  assumes "getCanvas d = (Inr c, d')"
  shows "tag c = (case getElementById d CANVAS_ID of None \<Rightarrow> ''canvas'' | Some c0 \<Rightarrow> tag c0)"
proof (cases "getElementById d CANVAS_ID")
  case (Some c0)
  from getCanvas_found[OF Some] assms show ?thesis using Some by auto
next
  case None
  show ?thesis
  proof (cases "body d = None")
    case True
    from getCanvas_no_body[OF None True] assms show ?thesis by simp
  next
    case False
    from getCanvas_created[OF None False] assms show ?thesis
      using None by (auto simp: createElement_def)
  qed
qed

lemma getSurface_creates:
  assumes "SURFACE s = None" and "getCanvas (doc s) = (Inr c, d1)" and "tag c = ''canvas''"
  shows "\<exists>s'. getSurface s = (Inr (length (surfaces s)), s') \<and> doc s' = d1 \<and>
           SURFACE s' = Some (length (surfaces s)) \<and>
           SURFACE_SMOOTHING s' = SURFACE_SMOOTHING s \<and>
           length (surfaces s') = Suc (length (surfaces s)) \<and>
           smoothing (surfaces s' ! length (surfaces s)) = Some (SURFACE_SMOOTHING s) \<and>
           s_canvas (surfaces s' ! length (surfaces s)) = Some (uid c)"
  using assms
  by (simp add: getSurface_def getContext_def update_surface_def Let_def new_Surface_def
      smooth_def noSmooth_def nth_append)

subsection \<open>Counting elements\<close>

lemma count_modify:
  assumes "\<And>e. eid (f e) = eid e"
  shows "count_id j (at_first i (\<lambda>x post. Node (f (el x)) (kids x) # post) ns) = count_id j ns"
  using assms
  by (induction i "(\<lambda>x post. Node (f (el x)) (kids x) # post)" ns rule: at_first.induct)
     (auto split: option.splits)

lemma find_count_le: "find_node i ns = Some x \<Longrightarrow> count_id j [x] \<le> count_id j ns"
  by (induction i ns rule: find_node.induct) (auto split: if_splits option.splits)

lemma find_after_append_sibling:
  "find_node i (at_first i (\<lambda>x post. x # post @ [n]) ns) = find_node i ns"
  by (induction i "(\<lambda>x post. x # post @ [n])" ns rule: at_first.induct)
     (auto split: option.splits)

lemma count_append_in_body:
  "find is_body cs \<noteq> None \<Longrightarrow> count_id j (append_in_body n cs) = count_id j cs + count_id j [n]"
  by (induction n cs rule: append_in_body.induct) (auto simp: count_id_append)

lemma tags_modify:
  assumes "\<And>e. tag (f e) = tag e"
  shows "map (\<lambda>n. tag (el n)) (at_first i (\<lambda>x post. Node (f (el x)) (kids x) # post) ns)
         = map (\<lambda>n. tag (el n)) ns"
  using assms
  by (induction i "(\<lambda>x post. Node (f (el x)) (kids x) # post)" ns rule: at_first.induct)
     (auto split: option.splits)

lemma find_is_body_tags:
  "(find is_body ns \<noteq> None) = (''body'' \<in> set (map (\<lambda>n. tag (el n)) ns) \<or>
                                  ''frameset'' \<in> set (map (\<lambda>n. tag (el n)) ns))"
  by (induction ns) (auto simp: is_body_def)

lemma eids_modify:
  assumes "\<And>e. eid (f e) = eid e"
  shows "map (\<lambda>n. eid (el n)) (at_first i (\<lambda>x post. Node (f (el x)) (kids x) # post) ns)
         = map (\<lambda>n. eid (el n)) ns"
  using assms
  by (induction i "(\<lambda>x post. Node (f (el x)) (kids x) # post)" ns rule: at_first.induct)
     (auto split: option.splits)

lemma rooted_eids:
  "rooted d = (\<exists>e. map (\<lambda>n. eid (el n)) (children d) = [e] \<and> e \<noteq> CANVAS_ID)"
  by (auto simp: rooted_def split: list.splits node.splits)

lemma rooted_modify:
  "(\<And>e. eid (f e) = eid e) \<Longrightarrow> rooted (modify i f d) = rooted d"
  by (simp add: rooted_eids modify_def eids_modify)

lemma count_modify_doc:
  "(\<And>e. eid (f e) = eid e) \<Longrightarrow>
     count_id j (children (modify i f d)) = count_id j (children d)"
  by (simp add: modify_def count_modify)

lemma exists_count: "(getElementById d i \<noteq> None) = (0 < count_id i (children d))"
  using find_node_None_count[of i "children d"] by (auto simp: getElementById_def)

lemma body_modify:
  assumes "\<And>e. tag (f e) = tag e"
  shows "(body (modify i f d) \<noteq> None) = (body d \<noteq> None)"
proof (cases "children d")
  case Nil
  then show ?thesis by (simp add: body_def modify_def)
next
  case (Cons r rest)
  obtain h cs where r: "r = Node h cs" by (cases r)
  have "find is_body (at_first i (\<lambda>x post. Node (f (el x)) (kids x) # post) cs) \<noteq> None
      \<longleftrightarrow> find is_body cs \<noteq> None"
    by (simp only: find_is_body_tags tags_modify[of f, OF assms])
  then show ?thesis using Cons r assms
    by (auto simp: body_def modify_def split: option.splits)
qed

lemma available_modify:
  assumes "\<And>e. eid (f e) = eid e" and "\<And>e. tag (f e) = tag e"
  shows "canvas_available (modify i f d) = canvas_available d"
  unfolding canvas_available_def exists_count
  using body_modify[of f i d, OF assms(2)] count_modify_doc[of f CANVAS_ID i d, OF assms(1)]
  by simp

lemma body_appendChild_shape:
  assumes "body d \<noteq> None"
  shows "\<exists>h cs rest. children d = Node h cs # rest \<and> find is_body cs \<noteq> None \<and>
           body_appendChild n d = Inr (d\<lparr>children := Node h (append_in_body n cs) # rest\<rparr>)"
  using assms
  by (auto simp: body_def body_appendChild_def split: list.splits node.splits if_splits)

lemma body_appendChild_count:
  assumes "body d \<noteq> None" and "body_appendChild n d = Inr d2"
  shows "count_id j (children d2) = count_id j (children d) + count_id j [n]"
    and "rooted d \<Longrightarrow> rooted d2"
proof -
  from body_appendChild_shape[OF assms(1), of n] assms(2)
  obtain h cs rest where ch: "children d = Node h cs # rest" and b: "find is_body cs \<noteq> None"
    and d2: "d2 = d\<lparr>children := Node h (append_in_body n cs) # rest\<rparr>"
    by auto
  show "count_id j (children d2) = count_id j (children d) + count_id j [n]"
    using count_append_in_body[OF b, of j n] by (simp add: d2 ch)
  show "rooted d2" if "rooted d"
    using that by (simp add: rooted_eids d2 ch)
qed

lemma getCanvas_spec:
  assumes "rooted d" and "canvas_available d"
  shows "\<exists>c d'. getCanvas d = (Inr c, d') \<and> rooted d' \<and>
           (\<forall>j. count_id j (children d') =
                 (if j = CANVAS_ID \<and> count_id j (children d) = 0 then 1
                  else count_id j (children d)))"
proof (cases "getElementById d CANVAS_ID")
  case (Some c0)
  let ?d' = "focus (c0\<lparr>tabindex := Some ''1''\<rparr>)
    (modify CANVAS_ID (\<lambda>e. e\<lparr>tabindex := Some ''1''\<rparr>) d)"
  have "children ?d' = children (modify CANVAS_ID (\<lambda>e. e\<lparr>tabindex := Some ''1''\<rparr>) d)"
    by (simp add: focus_def)
  then have "rooted ?d'" "\<And>j. count_id j (children ?d') = count_id j (children d)"
    using assms(1) rooted_modify[of "\<lambda>e. e\<lparr>tabindex := Some ''1''\<rparr>" CANVAS_ID d]
    by (simp_all add: rooted_def count_modify_doc)
  moreover have "0 < count_id CANVAS_ID (children d)"
    using Some exists_count[of d CANVAS_ID] by simp
  ultimately show ?thesis using getCanvas_found[OF Some] by auto
next
  case None
  with assms(2) have b: "body d \<noteq> None" by (simp add: canvas_available_def)
  from getCanvas_created[OF None b] obtain c d2 where
    g: "getCanvas d = (Inr c, focus c (modify CANVAS_ID (\<lambda>e. e\<lparr>tabindex := Some ''1''\<rparr>) d2))"
    and a: "body_appendChild (Node ((fst (createElement ''canvas'' d))\<lparr>eid := CANVAS_ID\<rparr>) [])
             (snd (createElement ''canvas'' d)) = Inr d2"
    by blast
  let ?d1 = "snd (createElement ''canvas'' d)"
  let ?d' = "focus c (modify CANVAS_ID (\<lambda>e. e\<lparr>tabindex := Some ''1''\<rparr>) d2)"
  have b1: "body ?d1 \<noteq> None" using b by simp
  have r1: "rooted ?d1" using assms(1) by (simp add: rooted_def)
  from body_appendChild_count[OF b1 a] r1
  have c2: "\<And>j. count_id j (children d2) = count_id j (children d) + (if CANVAS_ID = j then 1 else 0)"
    and r2: "rooted d2" by simp_all
  have "children ?d' = children (modify CANVAS_ID (\<lambda>e. e\<lparr>tabindex := Some ''1''\<rparr>) d2)"
    by (simp add: focus_def)
  then have "rooted ?d'" "\<And>j. count_id j (children ?d') = count_id j (children d2)"
    using r2 rooted_modify[of "\<lambda>e. e\<lparr>tabindex := Some ''1''\<rparr>" CANVAS_ID d2]
    by (simp_all add: rooted_def count_modify_doc)
  moreover have "count_id CANVAS_ID (children d) = 0"
    using None exists_count[of d CANVAS_ID] by simp
  ultimately show ?thesis using g c2 by auto
qed

lemma kept_refl: "kept_or_created j d d"
  by (simp add: kept_or_created_def)

lemma kept_trans:
  "kept_or_created j d d' \<Longrightarrow> kept_or_created j d' d'' \<Longrightarrow> kept_or_created j d d''"
  by (auto simp: kept_or_created_def)

lemma rooted_not_at_top: "rooted d \<Longrightarrow> \<not> at_top CANVAS_ID (children d)"
  by (auto simp: rooted_def split: list.splits node.splits)

lemma rooted_at_first:
  assumes "rooted d"
  shows "rooted (d\<lparr>children := at_first CANVAS_ID h (children d)\<rparr>)"
  using assms by (auto simp: rooted_def at_first_absent split: list.splits node.splits option.splits)

lemma available_count: "0 < count_id CANVAS_ID (children d) \<Longrightarrow> canvas_available d"
  unfolding canvas_available_def exists_count by simp

lemma getCanvas_kept:
  assumes "rooted d" and "canvas_available d"
  shows "\<exists>c d'. getCanvas d = (Inr c, d') \<and> rooted d' \<and> canvas_available d' \<and>
           0 < count_id CANVAS_ID (children d') \<and>
           (\<forall>j. j \<noteq> CANVAS_ID \<longrightarrow> count_id j (children d') = count_id j (children d)) \<and>
           (\<forall>j. kept_or_created j d d')"
proof -
  from getCanvas_spec[OF assms] obtain c d' where g: "getCanvas d = (Inr c, d')"
    and r: "rooted d'"
    and n: "\<And>j. count_id j (children d') =
                 (if j = CANVAS_ID \<and> count_id j (children d) = 0 then 1
                  else count_id j (children d))"
    by blast
  have pos: "0 < count_id CANVAS_ID (children d')" using n[of CANVAS_ID] by simp
  then have "canvas_available d'" by (rule available_count)
  moreover have "kept_or_created j d d'" for j
    using n[of j] by (auto simp: kept_or_created_def)
  ultimately show ?thesis using g r pos n by auto
qed

lemma parent_insertBefore_spec:
  assumes "rooted d" and "0 < count_id CANVAS_ID (children d)"
  shows "\<exists>d'. parent_insertBefore n CANVAS_ID d = Inr d' \<and> rooted d' \<and>
           focused d' = focused d \<and>
           (\<forall>j. count_id j (children d') = count_id j (children d) + count_id j [n])"
proof -
  let ?d' = "d\<lparr>children := at_first CANVAS_ID (\<lambda>x post. n # x # post) (children d)\<rparr>"
  from assms(2) obtain x where x: "find_node CANVAS_ID (children d) = Some x"
    using find_node_None_count[of CANVAS_ID "children d"] by auto
  have "count_id j (at_first CANVAS_ID (\<lambda>x post. n # x # post) (children d)) + 0
      = count_id j (children d) + count_id j [n]" for j
    by (rule count_at_first[OF x]) (cases x, cases n, simp)
  then show ?thesis
    using rooted_not_at_top[OF assms(1)] rooted_at_first[OF assms(1)]
    by (simp add: parent_insertBefore_def)
qed

lemma parent_appendChild_spec:
  assumes "rooted d" and "find_node CANVAS_ID (children d) = Some x"
  shows "\<exists>d'. parent_appendChild n CANVAS_ID d = Inr d' \<and> rooted d' \<and>
           focused d' = focused d \<and>
           find_node CANVAS_ID (children d') = Some x \<and>
           (\<forall>j. count_id j (children d') = count_id j (children d) + count_id j [n])"
proof -
  let ?d' = "d\<lparr>children := at_first CANVAS_ID (\<lambda>x post. x # post @ [n]) (children d)\<rparr>"
  have "count_id j (at_first CANVAS_ID (\<lambda>x post. x # post @ [n]) (children d)) + 0
      = count_id j (children d) + count_id j [n]" for j
    by (rule count_at_first[OF assms(2)]) (cases x, cases n, simp add: count_id_append)
  then show ?thesis
    using rooted_not_at_top[OF assms(1)] rooted_at_first[OF assms(1)] assms(2)
    by (simp add: parent_appendChild_def find_after_append_sibling)
qed


lemma eids_add_child:
  "map (\<lambda>n. eid (el n)) (at_first i (\<lambda>w post. Node (el w) (kids w @ [x]) # post) ns)
     = map (\<lambda>n. eid (el n)) ns"
  by (induction i "(\<lambda>w post. Node (el w) (kids w @ [x]) # post)" ns rule: at_first.induct)
     (auto split: option.splits)

lemma appendChild_move_spec:
  assumes "rooted d" and "find_node CANVAS_ID (children d) = Some x"
    and "count_id WRAPPER_ID [x] = 0" and "0 < count_id WRAPPER_ID (children d)"
  shows "rooted (appendChild_move WRAPPER_ID CANVAS_ID d)"
    and "count_id j (children (appendChild_move WRAPPER_ID CANVAS_ID d)) = count_id j (children d)"
proof -
  define ns' where "ns' = at_first CANVAS_ID (\<lambda>x post. post) (children d)"
  have ch: "children (appendChild_move WRAPPER_ID CANVAS_ID d)
      = at_first WRAPPER_ID (\<lambda>w post. Node (el w) (kids w @ [x]) # post) ns'"
    using assms(2) by (simp add: appendChild_move_def ns'_def)
  have rem: "count_id j (at_first CANVAS_ID (\<lambda>x post. post) (children d)) + count_id j [x]
      = count_id j (children d) + 0" for j
    by (rule count_at_first[OF assms(2)]) (cases x, simp)
  from rem[of WRAPPER_ID] assms(3,4) have "0 < count_id WRAPPER_ID ns'"
    by (simp add: ns'_def)
  then obtain wn where wn: "find_node WRAPPER_ID ns' = Some wn"
    using find_node_None_count[of WRAPPER_ID ns'] by auto
  have "count_id j (at_first WRAPPER_ID (\<lambda>w post. Node (el w) (kids w @ [x]) # post) ns') + 0
      = count_id j ns' + count_id j [x]"
    by (rule count_at_first[OF wn]) (cases wn, simp add: count_id_append)
  with rem[of j] show "count_id j (children (appendChild_move WRAPPER_ID CANVAS_ID d))
      = count_id j (children d)"
    by (simp add: ch ns'_def)
  from rooted_at_first[OF assms(1), of "\<lambda>x post. post"]
  have "\<exists>e. map (\<lambda>n. eid (el n)) ns' = [e] \<and> e \<noteq> CANVAS_ID"
    by (simp add: rooted_eids ns'_def)
  then show "rooted (appendChild_move WRAPPER_ID CANVAS_ID d)"
    by (simp add: rooted_eids ch eids_add_child)
qed

lemma ids_differ:
  "WRAPPER_ID \<noteq> CANVAS_ID" "TOGGLE_ID \<noteq> CANVAS_ID" "LOADER_ID \<noteq> CANVAS_ID"
  "WRAPPER_ID \<noteq> TOGGLE_ID" "CANVAS_ID \<noteq> []" "WRAPPER_ID \<noteq> []" "TOGGLE_ID \<noteq> []"
  by (simp_all add: WRAPPER_ID_def CANVAS_ID_def TOGGLE_ID_def LOADER_ID_def)

lemma getFullScreenWrapper_spec:
  assumes "rooted d" and "canvas_available d"
  shows "\<exists>w d'. getFullScreenWrapper d = (Inr w, d') \<and> rooted d' \<and> canvas_available d' \<and>
           0 < count_id WRAPPER_ID (children d') \<and> (\<forall>j. kept_or_created j d d')"
proof (cases "getElementById d WRAPPER_ID")
  case (Some w)
  then have "0 < count_id WRAPPER_ID (children d)"
    using exists_count[of d WRAPPER_ID] by simp
  with getFullScreenWrapper_found[OF Some] assms show ?thesis
    by (auto simp: kept_refl)
next
  case None
  then have w0: "count_id WRAPPER_ID (children d) = 0"
    using exists_count[of d WRAPPER_ID] by simp
  define d1 where "d1 = snd (createElement ''div'' d)"
  define w where "w = (fst (createElement ''div'' d))\<lparr>eid := WRAPPER_ID\<rparr>"
  have ch1: "children d1 = children d" by (simp add: d1_def)
  have "rooted d1" "canvas_available d1"
    using assms by (simp_all add: rooted_def canvas_available_def d1_def)
  from getCanvas_kept[OF this] obtain c d2 where g: "getCanvas d1 = (Inr c, d2)"
    and r2: "rooted d2" and pos: "0 < count_id CANVAS_ID (children d2)"
    and same: "\<And>j. j \<noteq> CANVAS_ID \<Longrightarrow> count_id j (children d2) = count_id j (children d1)"
    and k2: "\<And>j. kept_or_created j d1 d2"
    by blast
  from pos obtain x where x: "find_node CANVAS_ID (children d2) = Some x"
    using find_node_None_count[of CANVAS_ID "children d2"] by auto
  from parent_appendChild_spec[OF r2 x, of "Node w []"] obtain d3 where
    a: "parent_appendChild (Node w []) CANVAS_ID d2 = Inr d3" and r3: "rooted d3"
    and x3: "find_node CANVAS_ID (children d3) = Some x"
    and c3: "\<And>j. count_id j (children d3) = count_id j (children d2) + count_id j [Node w []]"
    by blast
  have w2: "count_id WRAPPER_ID (children d2) = 0"
    using same[of WRAPPER_ID] w0 ch1 by (simp add: ids_differ)
  with find_count_le[OF x, of WRAPPER_ID] have xw: "count_id WRAPPER_ID [x] = 0" by simp
  have w3: "0 < count_id WRAPPER_ID (children d3)"
    using c3[of WRAPPER_ID] by (simp add: w_def)
  let ?d4 = "appendChild_move WRAPPER_ID CANVAS_ID d3"
  from appendChild_move_spec[OF r3 x3 xw w3]
  have r4: "rooted ?d4" and c4: "\<And>j. count_id j (children ?d4) = count_id j (children d3)"
    by simp_all
  have res: "getFullScreenWrapper d = (Inr w, ?d4)"
    using None g a
    by (simp add: getFullScreenWrapper_def Let_def case_prod_unfold d1_def w_def)
  have cnt: "count_id j (children ?d4)
      = count_id j (children d2) + (if j = WRAPPER_ID then 1 else 0)" for j
    using c4[of j] c3[of j] by (auto simp: w_def)
  have "kept_or_created j d ?d4" for j
  proof (cases "j = WRAPPER_ID")
    case True
    with cnt[of j] w2 w0 show ?thesis by (simp add: kept_or_created_def)
  next
    case False
    with cnt[of j] k2[of j] ch1 show ?thesis by (simp add: kept_or_created_def)
  qed
  moreover have "0 < count_id CANVAS_ID (children ?d4)"
    using cnt[of CANVAS_ID] pos by simp
  then have "canvas_available ?d4" by (rule available_count)
  moreover have "0 < count_id WRAPPER_ID (children ?d4)"
    using cnt[of WRAPPER_ID] by simp
  ultimately show ?thesis using res r4 by blast
qed

lemma getFullScreenToggle_spec:
  assumes "rooted d" and "canvas_available d"
  shows "\<exists>b d'. getFullScreenToggle d = (Inr b, d') \<and> rooted d' \<and> canvas_available d' \<and>
           0 < count_id TOGGLE_ID (children d') \<and>
           (\<forall>j. j \<noteq> [] \<longrightarrow> kept_or_created j d d')"
proof (cases "getElementById d TOGGLE_ID")
  case (Some b)
  then have "0 < count_id TOGGLE_ID (children d)"
    using exists_count[of d TOGGLE_ID] by simp
  with Some assms show ?thesis
    by (auto simp: getFullScreenToggle_def kept_refl)
next
  case None
  then have t0: "count_id TOGGLE_ID (children d) = 0"
    using exists_count[of d TOGGLE_ID] by simp
  define d1 where "d1 = snd (createElement ''button'' d)"
  define b where "b = (fst (createElement ''button'' d))\<lparr>innerHTML := ''Fullscreen'', eid := TOGGLE_ID\<rparr>"
  have ch1: "children d1 = children d" by (simp add: d1_def)
  have "rooted d1" "canvas_available d1"
    using assms by (simp_all add: rooted_def canvas_available_def d1_def)
  from getCanvas_kept[OF this] obtain c d2 where g: "getCanvas d1 = (Inr c, d2)"
    and r2: "rooted d2" and pos: "0 < count_id CANVAS_ID (children d2)"
    and same: "\<And>j. j \<noteq> CANVAS_ID \<Longrightarrow> count_id j (children d2) = count_id j (children d1)"
    and k2: "\<And>j. kept_or_created j d1 d2"
    by blast
  from parent_insertBefore_spec[OF r2 pos, of "Node b []"] obtain d3 where
    a: "parent_insertBefore (Node b []) CANVAS_ID d2 = Inr d3" and r3: "rooted d3"
    and c3: "\<And>j. count_id j (children d3) = count_id j (children d2) + count_id j [Node b []]"
    by blast
  define br where "br = fst (createElement ''br'' d3)"
  define d4 where "d4 = snd (createElement ''br'' d3)"
  have ch4: "children d4 = children d3" by (simp add: d4_def)
  have r4: "rooted d4" using r3 by (simp add: rooted_def ch4)
  have pos4: "0 < count_id CANVAS_ID (children d4)"
    using c3[of CANVAS_ID] pos by (simp add: ch4)
  from parent_insertBefore_spec[OF r4 pos4, of "Node br []"] obtain d5 where
    a5: "parent_insertBefore (Node br []) CANVAS_ID d4 = Inr d5" and r5: "rooted d5"
    and c5: "\<And>j. count_id j (children d5) = count_id j (children d4) + count_id j [Node br []]"
    by blast
  have res: "getFullScreenToggle d = (Inr b, d5)"
    using None g a a5
    by (simp add: getFullScreenToggle_def Let_def case_prod_unfold d1_def b_def br_def d4_def)
  have ebr: "eid br = []" by (simp add: br_def createElement_def)
  have cnt: "count_id j (children d5)
      = count_id j (children d2) + (if j = TOGGLE_ID then 1 else 0)" if "j \<noteq> []" for j
    using c5[of j] c3[of j] that ebr by (auto simp: b_def ch4)
  have t2: "count_id TOGGLE_ID (children d2) = 0"
    using same[of TOGGLE_ID] t0 ch1 by (simp add: ids_differ)
  have "kept_or_created j d d5" if "j \<noteq> []" for j
  proof (cases "j = TOGGLE_ID")
    case True
    with cnt[OF that] t2 t0 show ?thesis by (simp add: kept_or_created_def)
  next
    case False
    with cnt[OF that] k2[of j] ch1 show ?thesis by (simp add: kept_or_created_def)
  qed
  moreover have "0 < count_id CANVAS_ID (children d5)"
    using cnt[of CANVAS_ID] pos by (simp add: ids_differ)
  then have "canvas_available d5" by (rule available_count)
  moreover have "0 < count_id TOGGLE_ID (children d5)"
    using cnt[of TOGGLE_ID] by (simp add: ids_differ)
  ultimately show ?thesis using res r5 by blast
qed

lemma rooted_children: "children d' = children d \<Longrightarrow> rooted d' = rooted d"
  by (simp add: rooted_def)

lemma available_children: "children d' = children d \<Longrightarrow> canvas_available d' = canvas_available d"
  by (simp add: canvas_available_def getElementById_def body_def)

lemma kept_pos:
  "kept_or_created j d d' \<Longrightarrow> 0 < count_id j (children d) \<Longrightarrow> 0 < count_id j (children d')"
  by (simp add: kept_or_created_def)

lemma init_spec:
  assumes "rooted (doc s)" and "canvas_available (doc s)"
  shows "\<exists>s'. init s = (Inr (), s') \<and> rooted (doc s') \<and> canvas_available (doc s') \<and>
           0 < count_id WRAPPER_ID (children (doc s')) \<and>
           0 < count_id TOGGLE_ID (children (doc s')) \<and>
           0 < count_id CANVAS_ID (children (doc s')) \<and>
           (\<forall>j. j \<noteq> [] \<longrightarrow> kept_or_created j (doc s) (doc s'))"
proof -
  from getFullScreenWrapper_spec[OF assms] obtain w d1 where
    w: "getFullScreenWrapper (doc s) = (Inr w, d1)" and r1: "rooted d1"
    and a1: "canvas_available d1" and pw: "0 < count_id WRAPPER_ID (children d1)"
    and k1: "\<And>j. kept_or_created j (doc s) d1"
    by blast
  from getFullScreenToggle_spec[OF r1 a1] obtain t d2 where
    t: "getFullScreenToggle d1 = (Inr t, d2)" and r2: "rooted d2"
    and a2: "canvas_available d2" and pt: "0 < count_id TOGGLE_ID (children d2)"
    and k2: "\<And>j. j \<noteq> [] \<Longrightarrow> kept_or_created j d1 d2"
    by blast
  define f :: "elem \<Rightarrow> elem" where
    "f = (\<lambda>e. e\<lparr>elisteners :=
                  addEventListener (''click'', ClickHandler (closures s)) (elisteners e)\<rparr>)"
  define d3 where "d3 = modify TOGGLE_ID f d2"
  define d4 where "d4 = d3\<lparr>listeners :=
    addEventListener (''fullscreenchange'', FullScreenChange) (listeners d3)\<rparr>"
  define d5 where "d5 = d4\<lparr>listeners :=
    addEventListener (''webkitfullscreenchange'', FullScreenChange) (listeners d4)\<rparr>"
  define d6 where "d6 = d5\<lparr>listeners :=
    addEventListener (''mozfullscreenchange'', FullScreenChange) (listeners d5)\<rparr>"
  have f: "eid (f e) = eid e" "tag (f e) = tag e" for e by (simp_all add: f_def)
  have r3: "rooted d3" and a3: "canvas_available d3"
    and c3: "\<And>j. count_id j (children d3) = count_id j (children d2)"
    using r2 a2 by (simp_all add: d3_def rooted_modify available_modify count_modify_doc f)
  have ch6: "children d6 = children d3" by (simp add: d6_def d5_def d4_def)
  have r6: "rooted d6" and a6: "canvas_available d6"
    using r3 a3 rooted_children[OF ch6] available_children[OF ch6] by simp_all
  from getCanvas_kept[OF r6 a6] obtain c d7 where g: "getCanvas d6 = (Inr c, d7)"
    and r7: "rooted d7" and a7: "canvas_available d7"
    and pc: "0 < count_id CANVAS_ID (children d7)"
    and same: "\<And>j. j \<noteq> CANVAS_ID \<Longrightarrow> count_id j (children d7) = count_id j (children d6)"
    and k7: "\<And>j. kept_or_created j d6 d7"
    by blast
  define d8 where "d8 = (case getElementById d7 LOADER_ID of
      Some loader \<Rightarrow> modify LOADER_ID (\<lambda>e. e\<lparr>display := ''none''\<rparr>) d7
    | None \<Rightarrow> d7)"
  have r8: "rooted d8" and a8: "canvas_available d8"
    and c8: "\<And>j. count_id j (children d8) = count_id j (children d7)"
    using r7 a7
    by (simp_all add: d8_def rooted_modify available_modify count_modify_doc split: option.splits)
  have res: "init s = (Inr (), s\<lparr>closures := Suc (closures s), doc := d8\<rparr>)"
    using w t g unfolding d8_def d6_def d5_def d4_def d3_def f_def
    by (simp add: init_def Let_def split: option.splits)
  have k36: "kept_or_created j d2 d6" for j
    using c3[of j] ch6 by (simp add: kept_or_created_def)
  have k78: "kept_or_created j d7 d8" for j
    using c8[of j] by (simp add: kept_or_created_def)
  have all: "kept_or_created j (doc s) d8" if "j \<noteq> []" for j
    using k1[of j] k2[OF that] k36[of j] k7[of j] k78[of j]
    by (blast intro: kept_trans)
  have k28: "kept_or_created j d2 d8" for j
    using k36[of j] k7[of j] k78[of j] by (blast intro: kept_trans)
  have k18: "kept_or_created j d1 d8" if "j \<noteq> []" for j
    using k2[OF that] k28[of j] by (blast intro: kept_trans)
  have "0 < count_id WRAPPER_ID (children d8)"
    using kept_pos[OF k18 pw] by (simp add: ids_differ)
  moreover have "0 < count_id TOGGLE_ID (children d8)"
    using kept_pos[OF k28 pt] .
  moreover have "0 < count_id CANVAS_ID (children d8)"
    using kept_pos[OF k78 pc] .
  ultimately show ?thesis using res r8 a8 all by simp
qed

lemma init_times_spec:
  assumes "rooted (doc s)" and "canvas_available (doc s)"
  shows "fst (init_times n s) = Inr () \<and>
         rooted (doc (snd (init_times n s))) \<and> canvas_available (doc (snd (init_times n s))) \<and>
         (\<forall>j. j \<noteq> [] \<longrightarrow> kept_or_created j (doc s) (doc (snd (init_times n s)))) \<and>
         (0 < n \<longrightarrow> 0 < count_id WRAPPER_ID (children (doc (snd (init_times n s)))) \<and>
                    0 < count_id TOGGLE_ID (children (doc (snd (init_times n s)))) \<and>
                    0 < count_id CANVAS_ID (children (doc (snd (init_times n s)))))"
  using assms
proof (induction n arbitrary: s)
  case 0
  then show ?case by (simp add: kept_refl)
next
  case (Suc n)
  from init_spec[OF Suc.prems] obtain s1 where i: "init s = (Inr (), s1)"
    and r1: "rooted (doc s1)" and a1: "canvas_available (doc s1)"
    and p1: "0 < count_id WRAPPER_ID (children (doc s1))"
       "0 < count_id TOGGLE_ID (children (doc s1))"
       "0 < count_id CANVAS_ID (children (doc s1))"
    and k1: "\<And>j. j \<noteq> [] \<Longrightarrow> kept_or_created j (doc s) (doc s1)"
    by blast
  let ?s' = "snd (init_times n s1)"
  from Suc.IH[OF r1 a1] have ok: "fst (init_times n s1) = Inr ()"
    and r: "rooted (doc ?s')" and a: "canvas_available (doc ?s')"
    and k: "\<And>j. j \<noteq> [] \<Longrightarrow> kept_or_created j (doc s1) (doc ?s')"
    by simp_all
  have eq: "init_times (Suc n) s = init_times n s1" using i by simp
  have "kept_or_created j (doc s) (doc ?s')" if "j \<noteq> []" for j
    using k1[OF that] k[OF that] by (rule kept_trans)
  moreover have "0 < count_id WRAPPER_ID (children (doc ?s'))"
    "0 < count_id TOGGLE_ID (children (doc ?s'))"
    "0 < count_id CANVAS_ID (children (doc ?s'))"
    using kept_pos[OF k p1(1)] kept_pos[OF k p1(2)] kept_pos[OF k p1(3)]
    by (simp_all add: ids_differ)
  ultimately show ?case using ok r a unfolding eq by simp
qed

subsection \<open>The caption\<close>

text \<open>
  Claim C8, as stated, fails. On a page with a head and no title element,
  \<^verbatim>\<open>setCaption(" a  b ")\<close> puts a title element into the head, and the document title then
  reads \<^verbatim>\<open>"a b"\<close>, not the string that was passed. On a document with neither a head nor a
  title element, \<^verbatim>\<open>setCaption("game")\<close> leaves the title empty.
\<close>

theorem setCaption_title_differs:
  "title_node (children (doc (loaded (page no_methods [])))) = None \<and>
   title_node (children (doc (setCaption '' a  b '' () (loaded (page no_methods []))))) \<noteq> None \<and>
   document_title (doc (setCaption '' a  b '' () (loaded (page no_methods [])))) = ''a b'' \<and>
   document_title (doc (setCaption '' a  b '' () (loaded (page no_methods [])))) \<noteq> '' a  b '' \<and>
   document_title (doc (setCaption ''game'' () (loaded headless_page))) = []"
  by code_simp

text \<open>
  Claim C8, amended. For every title and every icon, \<^verbatim>\<open>setCaption(title, icon)\<close> does the
  assignment \<^verbatim>\<open>document.title = title\<close> and nothing else. The icon has no effect. The
  module variables and all of the document but its tree and the count of elements made
  stay as they were, and so does the tree apart from title elements. On a document with a
  title element or a head, the document has a title element afterwards and its title reads
  as \<open>title\<close> with the white space stripped and collapsed, which is \<open>title\<close> itself when
  \<open>title\<close> has no white space. On a document with neither, the call changes nothing.
\<close>

theorem setCaption_assigns_title:
  "setCaption t icon s = setCaption t icon' s \<and>
   setCaption t icon s =
     s\<lparr>doc := (doc s)\<lparr>children := children (doc (setCaption t icon s)),
                       next_uid := next_uid (doc (setCaption t icon s))\<rparr>\<rparr> \<and>
   without_titles (children (doc (setCaption t icon s))) = without_titles (children (doc s)) \<and>
   (title_node (children (doc s)) \<noteq> None \<or> head (doc s) \<noteq> None \<longrightarrow>
      title_node (children (doc (setCaption t icon s))) \<noteq> None \<and>
      document_title (doc (setCaption t icon s)) = strip_and_collapse t) \<and>
   (title_node (children (doc s)) = None \<longrightarrow> head (doc s) = None \<longrightarrow>
      setCaption t icon s = s) \<and>
   ((\<forall>c\<in>set t. \<not> is_space c) \<longrightarrow> strip_and_collapse t = t)"
proof -
  let ?d = "doc s"
  let ?d' = "set_document_title t (doc s)"
  have frame: "?d' = ?d\<lparr>children := children ?d', next_uid := next_uid ?d'\<rparr>"
    and tree: "without_titles (children ?d') = without_titles (children ?d)"
    and reads: "title_node (children ?d) \<noteq> None \<or> head ?d \<noteq> None \<Longrightarrow>
      title_node (children ?d') \<noteq> None \<and> document_title ?d' = strip_and_collapse t"
  proof -
    consider (title) x where "title_node (children ?d) = Some x"
      | (made) "title_node (children ?d) = None" "head ?d \<noteq> None"
      | (none) "title_node (children ?d) = None" "head ?d = None"
      by (cases "title_node (children ?d)") auto
    then have "?d' = ?d\<lparr>children := children ?d', next_uid := next_uid ?d'\<rparr> \<and>
      without_titles (children ?d') = without_titles (children ?d) \<and>
      (title_node (children ?d) \<noteq> None \<or> head ?d \<noteq> None \<longrightarrow>
        title_node (children ?d') \<noteq> None \<and> document_title ?d' = strip_and_collapse t)"
    proof cases
      case title
      from set_document_title_with_title[OF title, of t] title_node_set_title_text[OF title, of t]
      show ?thesis
        by (simp add: without_titles_set_title_text document_title_def)
    next
      case made
      from set_document_title_created[OF made, of t] obtain h cs rest where
        ch: "children ?d = Node h cs # rest" and hd: "find is_head cs \<noteq> None"
        and eq: "?d' = ?d\<lparr>next_uid := Suc (next_uid ?d),
            children := Node h (append_in_head
              (Node ((fst (createElement ''title'' ?d))\<lparr>textContent := t\<rparr>) []) cs) # rest\<rparr>"
        by blast
      let ?e = "(fst (createElement ''title'' ?d))\<lparr>textContent := t\<rparr>"
      have te: "tag ?e = ''title''" by (simp add: createElement_def)
      from made(1) ch have none: "tag h \<noteq> ''title''" "title_node cs = None" "title_node rest = None"
        by (auto split: if_splits option.splits)
      have "title_node (Node h (append_in_head (Node ?e []) cs) # rest) = Some (Node ?e [])"
        using none te title_node_append_in_head[OF none(2) hd, of "Node ?e []"] by simp
      then show ?thesis
        using eq ch none(1) te without_titles_append_in_head[OF te, of cs]
        by (simp add: document_title_def)
    next
      case none
      from set_document_title_without[OF none, of t] none show ?thesis by simp
    qed
    then show "?d' = ?d\<lparr>children := children ?d', next_uid := next_uid ?d'\<rparr>"
      and "without_titles (children ?d') = without_titles (children ?d)"
      and "title_node (children ?d) \<noteq> None \<or> head ?d \<noteq> None \<Longrightarrow>
        title_node (children ?d') \<noteq> None \<and> document_title ?d' = strip_and_collapse t"
      by blast+
  qed
  have a: "setCaption t icon s = setCaption t icon' s" by (simp add: setCaption_def)
  have b: "setCaption t icon s =
     s\<lparr>doc := (doc s)\<lparr>children := children (doc (setCaption t icon s)),
                       next_uid := next_uid (doc (setCaption t icon s))\<rparr>\<rparr>"
    using frame by (simp add: setCaption_def)
  have c: "without_titles (children (doc (setCaption t icon s))) = without_titles (children (doc s))"
    using tree by (simp add: setCaption_def)
  have d: "title_node (children (doc s)) \<noteq> None \<or> head (doc s) \<noteq> None \<longrightarrow>
      title_node (children (doc (setCaption t icon s))) \<noteq> None \<and>
      document_title (doc (setCaption t icon s)) = strip_and_collapse t"
    using reads by (simp add: setCaption_def)
  have e: "title_node (children (doc s)) = None \<longrightarrow> head (doc s) = None \<longrightarrow>
      setCaption t icon s = s"
    by (simp add: setCaption_def set_document_title_without)
  have f: "(\<forall>c\<in>set t. \<not> is_space c) \<longrightarrow> strip_and_collapse t = t"
    by (simp add: strip_and_collapse_def collapse_no_space)
  from a b c d e f show ?thesis by blast
qed

theorem setCaption_assigns_title_witness:
  "head (doc (loaded (page no_methods []))) \<noteq> None \<and>
   title_node (children (doc (setCaption ''game'' () (loaded (page no_methods []))))) \<noteq> None \<and>
   document_title (doc (setCaption ''game'' () (loaded (page no_methods [])))) = ''game'' \<and>
   without_titles (children (doc (setCaption ''game'' () (loaded (page no_methods [])))))
     = children (doc (loaded (page no_methods []))) \<and>
   title_node (children (doc (loaded headless_page))) = None \<and>
   head (doc (loaded headless_page)) = None \<and>
   setCaption ''game'' () (loaded headless_page) = loaded headless_page"
proof -
  let ?s = "loaded (page no_methods [])"
  let ?n = "loaded headless_page"
  have h: "head (doc ?s) \<noteq> None" by code_simp
  have w: "\<forall>c\<in>set ''game''. \<not> is_space c" by code_simp
  have p: "without_titles (children (doc ?s)) = children (doc ?s)" by code_simp
  have n: "title_node (children (doc ?n)) = None" "head (doc ?n) = None" by code_simp+
  from setCaption_assigns_title[of "''game''" "()" ?s "()"] h w p
  have "title_node (children (doc (setCaption ''game'' () ?s))) \<noteq> None \<and>
    document_title (doc (setCaption ''game'' () ?s)) = ''game'' \<and>
    without_titles (children (doc (setCaption ''game'' () ?s))) = children (doc ?s)"
    by simp
  moreover from setCaption_assigns_title[of "''game''" "()" ?n "()"] n
  have "setCaption ''game'' () ?n = ?n" by simp
  ultimately show ?thesis using h n by simp
qed

subsection \<open>Fullscreen\<close>

text \<open>
  Claim C5. In every state where the wrapper element has none of \<^verbatim>\<open>requestFullScreen\<close>,
  \<^verbatim>\<open>mozRequestFullScreen\<close> and \<^verbatim>\<open>webkitRequestFullScreen\<close>, requesting fullscreen returns
  false, throws nothing and leaves the document as it was; the click on the toggle, which
  does just this request, leaves the whole state (document and module variables) as it was.
\<close>

theorem enableFullScreen_unsupported:
  assumes "getElementById (doc s) WRAPPER_ID = Some w"
    and "\<not> requestFullScreen (meths w)"
    and "\<not> mozRequestFullScreen (meths w)"
    and "\<not> webkitRequestFullScreen (meths w)"
  shows "enableFullScreen (doc s) = (Inr False, doc s) \<and> step ToggleClick s = s"
proof -
  have "modify WRAPPER_ID (\<lambda>e. e\<lparr>meths := (meths e)\<lparr>requestFullScreen := False\<rparr>\<rparr>) (doc s) = doc s"
    using assms(1,2) by (intro modify_id[where w = w]) simp_all
  with assms have "enableFullScreen (doc s) = (Inr False, doc s)"
    by (simp add: enableFullScreen_def getFullScreenWrapper_found)
  then show ?thesis by (simp add: toggleClick_def)
qed

theorem enableFullScreen_unsupported_witness:
  "getElementById (doc (loaded (wrapped_page no_methods ''left''))) WRAPPER_ID
     = Some (wrapper_elem no_methods ''left'') \<and>
   \<not> requestFullScreen (meths (wrapper_elem no_methods ''left'')) \<and>
   \<not> mozRequestFullScreen (meths (wrapper_elem no_methods ''left'')) \<and>
   \<not> webkitRequestFullScreen (meths (wrapper_elem no_methods ''left'')) \<and>
   enableFullScreen (doc (loaded (wrapped_page no_methods ''left'')))
     = (Inr False, doc (loaded (wrapped_page no_methods ''left''))) \<and>
   step (ToggleClick :: unit call) (loaded (wrapped_page no_methods ''left''))
     = loaded (wrapped_page no_methods ''left'')"
proof -
  have found: "getElementById (doc (loaded (wrapped_page no_methods ''left''))) WRAPPER_ID
      = Some (wrapper_elem no_methods ''left'')"
    by (simp add: loaded_def wrapped_page_def page_def getElementById_def wrapper_elem_def
        element_def WRAPPER_ID_def CANVAS_ID_def)
  have none: "\<not> requestFullScreen (meths (wrapper_elem no_methods ''left''))"
    "\<not> mozRequestFullScreen (meths (wrapper_elem no_methods ''left''))"
    "\<not> webkitRequestFullScreen (meths (wrapper_elem no_methods ''left''))"
    by (simp_all add: wrapper_elem_def element_def no_methods_def)
  from enableFullScreen_unsupported[OF found none] found none show ?thesis
    by simp
qed

text \<open>
  Claim C4. When the fullscreen-change handler runs while the platform reports fullscreen,
  it saves the wrapper's text alignment, centres the wrapper and asks for the pointer lock
  if the wrapper has one of the three request methods (and asks for nothing otherwise).
  When the handler then runs on the same tree while the platform reports no fullscreen,
  the wrapper gets the saved alignment back: whatever the alignment \<open>textAlign w\<close> was
  before the pair, it is the same after it.
\<close>

theorem fullScreenChange_round_trip:
  assumes "getElementById (doc s) WRAPPER_ID = Some w"
    and "isFullScreen (doc s)"
    and "fullScreenChange s = (r1, s1)"
    and "children d2 = children (doc s1)"
    and "\<not> isFullScreen d2"
    and "fullScreenChange (s1\<lparr>doc := d2\<rparr>) = (r2, s2)"
  shows "r1 = Inr () \<and>
         oldWrapperTextAlign s1 = Some (textAlign w) \<and>
         map_option textAlign (getElementById (doc s1) WRAPPER_ID) = Some ''center'' \<and>
         requests (doc s1) = requests (doc s) @
           (if requestPointerLock (meths w) \<or> mozRequestPointerLock (meths w) \<or>
               webkitRequestPointerLock (meths w)
            then [PointerLockRequest (uid w)] else []) \<and>
         r2 = Inr () \<and>
         map_option textAlign (getElementById (doc s2) WRAPPER_ID) = Some (textAlign w)"
proof -
  define r where "r = (requestPointerLock (meths w) \<or> mozRequestPointerLock (meths w) \<or>
    webkitRequestPointerLock (meths w))"
  define f :: "elem \<Rightarrow> elem" where "f = (\<lambda>e. e\<lparr>meths := (meths e)\<lparr>requestPointerLock := r\<rparr>\<rparr>)"
  define c :: "elem \<Rightarrow> elem" where "c = (\<lambda>e. e\<lparr>textAlign := style_value (Some ''center'')\<rparr>)"
  define d1 where "d1 = modify WRAPPER_ID f (doc s)"
  define d1' where
    "d1' = (if r then d1\<lparr>requests := requests d1 @ [PointerLockRequest (uid w)]\<rparr> else d1)"
  have f_eid: "eid (f e) = eid e" and f_align: "textAlign (f e) = textAlign e" for e
    by (simp_all add: f_def)
  have c_eid: "eid (c e) = eid e" and c_align: "textAlign (c e) = ''center''" for e
    by (simp_all add: c_def style_value_def)
  have lock: "enablePointerLock (doc s) = (Inr (), d1')"
    using assms(1)
    by (simp add: enablePointerLock_def getFullScreenWrapper_found Let_def
        r_def f_def d1_def d1'_def)
  have "getElementById d1 WRAPPER_ID = Some (f w)"
    using assms(1) by (simp add: d1_def getElementById_modify_same f_eid)
  moreover have "children d1' = children d1" by (simp add: d1'_def)
  ultimately have w1: "getElementById d1' WRAPPER_ID = Some (f w)"
    using getElementById_children[of d1' d1 WRAPPER_ID] by simp
  have enter: "fullScreenChange s =
      (Inr (), s\<lparr>doc := modify WRAPPER_ID c d1', oldWrapperTextAlign := Some (textAlign w)\<rparr>)"
    using assms(2) lock w1
    by (simp add: fullScreenChange_def getFullScreenWrapper_found Let_def c_def f_align)
  with assms(3) have r1: "r1 = Inr ()"
    and s1: "s1 = s\<lparr>doc := modify WRAPPER_ID c d1', oldWrapperTextAlign := Some (textAlign w)\<rparr>"
    by simp_all
  have w2: "getElementById (doc s1) WRAPPER_ID = Some (c (f w))"
    using w1 by (simp add: s1 getElementById_modify_same c_eid)
  then have w3: "getElementById d2 WRAPPER_ID = Some (c (f w))"
    using assms(4) getElementById_children[of d2 "doc s1" WRAPPER_ID] by simp
  have exit: "fullScreenChange (s1\<lparr>doc := d2\<rparr>) =
      (Inr (), s1\<lparr>doc := modify WRAPPER_ID (\<lambda>e. e\<lparr>textAlign := textAlign w\<rparr>) d2\<rparr>)"
    using assms(5) w3
    by (simp add: fullScreenChange_def getFullScreenWrapper_found s1 style_value_def)
  with assms(6) have r2: "r2 = Inr ()"
    and s2: "s2 = s1\<lparr>doc := modify WRAPPER_ID (\<lambda>e. e\<lparr>textAlign := textAlign w\<rparr>) d2\<rparr>"
    by simp_all
  have "map_option textAlign (getElementById (doc s2) WRAPPER_ID) = Some (textAlign w)"
    using w3 by (simp add: s2 getElementById_modify_same)
  moreover have "requests (doc s1) = requests (doc s) @ (if r then [PointerLockRequest (uid w)] else [])"
    by (simp add: s1 d1'_def d1_def)
  moreover have "oldWrapperTextAlign s1 = Some (textAlign w)" by (simp add: s1)
  moreover have "map_option textAlign (getElementById (doc s1) WRAPPER_ID) = Some ''center''"
    using w2 by (simp add: c_align)
  ultimately show ?thesis using r1 r2 unfolding r_def by simp
qed


theorem fullScreenChange_round_trip_witness:
  "getElementById (doc fullscreen_state) WRAPPER_ID = Some (wrapper_elem webkit_methods ''left'') \<and>
   isFullScreen (doc fullscreen_state) \<and>
   \<not> isFullScreen ((doc (snd (fullScreenChange fullscreen_state)))\<lparr>webkitIsFullScreen := False\<rparr>) \<and>
   fst (fullScreenChange fullscreen_state) = Inr () \<and>
   oldWrapperTextAlign (snd (fullScreenChange fullscreen_state)) = Some ''left'' \<and>
   map_option textAlign (getElementById (doc (snd (fullScreenChange fullscreen_state))) WRAPPER_ID)
     = Some ''center'' \<and>
   requests (doc (snd (fullScreenChange fullscreen_state))) = [PointerLockRequest 3] \<and>
   map_option textAlign
     (getElementById
        (doc (snd (fullScreenChange
          ((snd (fullScreenChange fullscreen_state))
             \<lparr>doc := (doc (snd (fullScreenChange fullscreen_state)))
                       \<lparr>webkitIsFullScreen := False\<rparr>\<rparr>))))
        WRAPPER_ID)
     = Some ''left''"
proof -
  let ?s1 = "snd (fullScreenChange fullscreen_state)"
  let ?d2 = "(doc ?s1)\<lparr>webkitIsFullScreen := False\<rparr>"
  have found: "getElementById (doc fullscreen_state) WRAPPER_ID
      = Some (wrapper_elem webkit_methods ''left'')"
    by (simp add: fullscreen_state_def loaded_def wrapped_page_def page_def getElementById_def
        wrapper_elem_def element_def WRAPPER_ID_def CANVAS_ID_def)
  have full: "isFullScreen (doc fullscreen_state)"
    by (simp add: fullscreen_state_def loaded_def isFullScreen_def)
  have enter: "fullScreenChange fullscreen_state = (fst (fullScreenChange fullscreen_state), ?s1)"
    by simp
  have tree: "children ?d2 = children (doc ?s1)"
    by simp
  have left: "\<not> isFullScreen ?d2"
    by code_simp
  have exit: "fullScreenChange (?s1\<lparr>doc := ?d2\<rparr>)
      = (fst (fullScreenChange (?s1\<lparr>doc := ?d2\<rparr>)), snd (fullScreenChange (?s1\<lparr>doc := ?d2\<rparr>)))"
    by simp
  have meths: "requestPointerLock (meths (wrapper_elem webkit_methods ''left'')) \<or>
      mozRequestPointerLock (meths (wrapper_elem webkit_methods ''left'')) \<or>
      webkitRequestPointerLock (meths (wrapper_elem webkit_methods ''left''))"
    by (simp add: wrapper_elem_def element_def webkit_methods_def)
  have before: "requests (doc fullscreen_state) = []"
    "uid (wrapper_elem webkit_methods ''left'') = 3"
    "textAlign (wrapper_elem webkit_methods ''left'') = ''left''"
    by (simp_all add: fullscreen_state_def loaded_def wrapped_page_def page_def wrapper_elem_def
        element_def)
  from fullScreenChange_round_trip[OF found full enter tree left exit] found full left meths before
  show ?thesis by simp
qed

text \<open>
  Claim C10. Suppose the module has just been loaded (nothing saved yet), and the page
  then runs in any way in which the handler never sees the platform in fullscreen. If the
  handler now runs while the platform reports no fullscreen, it assigns the null of
  \<^verbatim>\<open>oldWrapperTextAlign\<close> to the wrapper's text alignment: whatever alignment the wrapper
  had is replaced by what the platform stores for null, the empty alignment.
\<close>

theorem fullScreenChange_exit_without_enter:
  assumes "oldWrapperTextAlign s0 = None"
    and "no_enter cs s0"
    and "\<not> isFullScreen (doc (run cs s0))"
    and "getElementById (doc (run cs s0)) WRAPPER_ID = Some w"
  shows "fst (fullScreenChange (run cs s0)) = Inr () \<and>
         getElementById (doc (snd (fullScreenChange (run cs s0)))) WRAPPER_ID
           = Some (w\<lparr>textAlign := style_value None\<rparr>) \<and>
         style_value None = []"
proof -
  have "oldWrapperTextAlign (run cs s0) = None"
    using assms(1,2) by (simp add: run_old)
  with assms(3,4) show ?thesis
    by (simp add: fullScreenChange_def getFullScreenWrapper_found getElementById_modify_same
        style_value_def)
qed



theorem fullScreenChange_exit_without_enter_witness:
  "oldWrapperTextAlign (loaded (wrapped_page no_methods ''right'')) = None \<and>
   no_enter [SetCaption ''game'' (), FullScreenChangeEvent]
     (loaded (wrapped_page no_methods ''right'')) \<and>
   \<not> isFullScreen (doc (run [SetCaption ''game'' (), FullScreenChangeEvent]
     (loaded (wrapped_page no_methods ''right'')))) \<and>
   getElementById (doc (run [SetCaption ''game'' ()] (loaded (wrapped_page no_methods ''right''))))
     WRAPPER_ID = Some (wrapper_elem no_methods ''right'') \<and>
   map_option textAlign
     (getElementById (doc (run [SetCaption ''game'' (), FullScreenChangeEvent]
        (loaded (wrapped_page no_methods ''right'')))) WRAPPER_ID) = Some []"
proof -
  let ?s0 = "loaded (wrapped_page no_methods ''right'')"
  let ?cs = "[SetCaption ''game'' ()]"
  have fresh: "oldWrapperTextAlign ?s0 = None"
    by (simp add: loaded_def)
  have quiet: "no_enter ?cs ?s0"
    by simp
  have normal: "\<not> isFullScreen (doc (run ?cs ?s0))"
    by code_simp
  have found: "getElementById (doc (run ?cs ?s0)) WRAPPER_ID = Some (wrapper_elem no_methods ''right'')"
    by code_simp
  have quiet2: "no_enter [SetCaption ''game'' (), FullScreenChangeEvent] ?s0"
    using normal by simp
  have normal2: "\<not> isFullScreen (doc (run [SetCaption ''game'' (), FullScreenChangeEvent] ?s0))"
    by code_simp
  from fullScreenChange_exit_without_enter[OF fresh quiet normal found]
  have "getElementById (doc (run [SetCaption ''game'' (), FullScreenChangeEvent] ?s0)) WRAPPER_ID
      = Some ((wrapper_elem no_methods ''right'')\<lparr>textAlign := []\<rparr>)"
    by simp
  with fresh quiet2 normal2 found show ?thesis
    by simp
qed

subsection \<open>The Surface\<close>

text \<open>
  Claim C1. \<^verbatim>\<open>getSurface()\<close> is a singleton for the life of the page. A call that returns
  a Surface leaves it in \<^verbatim>\<open>SURFACE\<close>. Once \<^verbatim>\<open>SURFACE\<close> holds a Surface \<open>r\<close>, then after
  any run of calls, events and changes of the document, \<^verbatim>\<open>getSurface()\<close> returns \<open>r\<close>
  and changes nothing, the \<^verbatim>\<open>getSurface()\<close> inside \<^verbatim>\<open>setMode\<close> returns \<open>r\<close> whenever
  \<^verbatim>\<open>setMode\<close> returns, and the module has made or touched no Surface object.
\<close>

theorem getSurface_singleton:
  "(fst (getSurface s) = Inr r \<longrightarrow> SURFACE (snd (getSurface s)) = Some r) \<and>
   (SURFACE s = Some r \<longrightarrow>
      getSurface (run cs s) = (Inr r, run cs s) \<and>
      (fst (setMode dims fl (run cs s)) = Inr r' \<longrightarrow> r' = r) \<and>
      surfaces (run cs s) = surfaces s)"
proof (intro conjI impI)
  assume "fst (getSurface s) = Inr r"
  then show "SURFACE (snd (getSurface s)) = Some r" by (rule getSurface_returns)
next
  assume "SURFACE s = Some r"
  from run_cached[OF this, of cs] have c: "SURFACE (run cs s) = Some r"
    and h: "surfaces (run cs s) = surfaces s" by simp_all
  from c show "getSurface (run cs s) = (Inr r, run cs s)" by (rule getSurface_cached)
  from h show "surfaces (run cs s) = surfaces s" .
  assume "fst (setMode dims fl (run cs s)) = Inr r'"
  with c show "r' = r" by (rule setMode_cached(3))
qed

theorem getSurface_singleton_witness:
  "fst (getSurface (loaded linked_page)) = Inr 0 \<and>
   SURFACE (snd (getSurface (loaded linked_page))) = Some 0 \<and>
   SURFACE cached_state = Some 0 \<and>
   getSurface (run [SetMode (800, 600) (Some 2), HasFocus, Init :: unit call] cached_state)
     = (Inr 0, run [SetMode (800, 600) (Some 2), HasFocus, Init] cached_state) \<and>
   fst (setMode (320, 200) None
     (run [SetMode (800, 600) (Some 2), HasFocus, Init :: unit call] cached_state)) = Inr 0 \<and>
   surfaces (run [SetMode (800, 600) (Some 2), HasFocus, Init :: unit call] cached_state)
     = surfaces cached_state"
proof -
  let ?cs = "[SetMode (800, 600) (Some 2), HasFocus, Init :: unit call]"
  have first: "fst (getSurface (loaded linked_page)) = Inr 0"
    by code_simp
  have cached: "SURFACE cached_state = Some 0"
    by code_simp
  have again: "fst (setMode (320, 200) None (run ?cs cached_state)) = Inr 0"
    by code_simp
  from getSurface_singleton[of "loaded linked_page" 0 "[]" "(0, 0)" None 0] first
  have "SURFACE (snd (getSurface (loaded linked_page))) = Some 0" by simp
  moreover from getSurface_singleton[of cached_state 0 ?cs "(320, 200)" None 0] cached again
  have "getSurface (run ?cs cached_state) = (Inr 0, run ?cs cached_state) \<and>
      surfaces (run ?cs cached_state) = surfaces cached_state" by simp
  ultimately show ?thesis using first cached again by simp
qed

text \<open>
  Claim C3, at a failing input. On a blank page, \<^verbatim>\<open>setMode([640, 480])\<close> makes the Surface
  and turns its smoothing on. The later \<^verbatim>\<open>setMode([640, 480], DISABLE_SMOOTHING)\<close> clears
  \<^verbatim>\<open>_SURFACE_SMOOTHING\<close>, but \<^verbatim>\<open>getSurface()\<close> still answers with the cached Surface, on
  which \<^verbatim>\<open>_noSmooth\<close> was never called: its smoothing is on. The other way round, a Surface
  made with \<^verbatim>\<open>DISABLE_SMOOTHING\<close> keeps its smoothing off after \<^verbatim>\<open>setMode([640, 480])\<close>.
\<close>

theorem setMode_flag_misses_cached_surface:
  "fst (getSurface (run [SetMode (640, 480) None,
                         SetMode (640, 480) (Some DISABLE_SMOOTHING) :: unit call]
                      (loaded (page no_methods [])))) = Inr 0 \<and>
   map smoothing (surfaces (snd (getSurface (run [SetMode (640, 480) None,
                         SetMode (640, 480) (Some DISABLE_SMOOTHING) :: unit call]
                      (loaded (page no_methods [])))))) = [Some True] \<and>
   \<not> isSmoothingEnabled (run [SetMode (640, 480) None,
                         SetMode (640, 480) (Some DISABLE_SMOOTHING) :: unit call]
                      (loaded (page no_methods []))) \<and>
   fst (getSurface (run [SetMode (640, 480) (Some DISABLE_SMOOTHING),
                         SetMode (640, 480) None :: unit call]
                      (loaded (page no_methods [])))) = Inr 0 \<and>
   map smoothing (surfaces (snd (getSurface (run [SetMode (640, 480) (Some DISABLE_SMOOTHING),
                         SetMode (640, 480) None :: unit call]
                      (loaded (page no_methods [])))))) = [Some False] \<and>
   isSmoothingEnabled (run [SetMode (640, 480) (Some DISABLE_SMOOTHING),
                         SetMode (640, 480) None :: unit call]
                      (loaded (page no_methods [])))"
  by code_simp

subsection \<open>The focus\<close>

text \<open>
  Claim C7, as stated, fails: on a page where a link has the focus, \<^verbatim>\<open>_hasFocus()\<close>
  answers false and leaves the focus on the canvas, not on the link.
\<close>

theorem hasFocus_moves_focus:
  "fst (hasFocus linked_page) = Inr False \<and>
   activeElement linked_page = Some 5 \<and>
   activeElement (snd (hasFocus linked_page)) = Some 4 \<and>
   activeElement (snd (hasFocus linked_page)) \<noteq> activeElement linked_page"
  by code_simp

text \<open>
  Claim C7, amended. On a document that has the canvas, \<^verbatim>\<open>_hasFocus()\<close> returns true
  if and only if the canvas was the active element when the call began; the call gives
  the focus to the canvas, so that a second call returns true. On a document with a body
  and no canvas, the call makes the canvas, returns false and leaves the focus on the new
  canvas (the identity of a new element not being in use before).
\<close>

theorem hasFocus_reports_focus_before_call:
  "(getElementById d CANVAS_ID = Some c \<longrightarrow>
      fst (hasFocus d) = Inr (activeElement d = Some (uid c)) \<and>
      activeElement (snd (hasFocus d)) = Some (uid c) \<and>
      fst (hasFocus (snd (hasFocus d))) = Inr True) \<and>
   (getElementById d' CANVAS_ID = None \<longrightarrow> body d' \<noteq> None \<longrightarrow>
      activeElement d' \<noteq> Some (next_uid d') \<longrightarrow>
      fst (hasFocus d') = Inr False \<and>
      activeElement (snd (hasFocus d')) = Some (next_uid d') \<and>
      fst (hasFocus (snd (hasFocus d'))) = Inr True)"
proof -
  have again: "fst (hasFocus d1) = Inr True"
    if "getCanvas d0 = (Inr c0, d1)" for d0 c0 d1
  proof -
    from getCanvas_Inr[OF that] have c0: "getElementById d1 CANVAS_ID = Some c0"
      "focused d1 = Some (uid c0)" by simp_all
    from getCanvas_found[OF c0(1)] c0(2) show ?thesis
      by (simp add: hasFocus_def Let_def activeElement_focused)
  qed
  have found: "fst (hasFocus d) = Inr (activeElement d = Some (uid c)) \<and>
      activeElement (snd (hasFocus d)) = Some (uid c) \<and>
      fst (hasFocus (snd (hasFocus d))) = Inr True"
    if c: "getElementById d CANVAS_ID = Some c"
  proof -
    let ?d1 = "focus (c\<lparr>tabindex := Some ''1''\<rparr>)
      (modify CANVAS_ID (\<lambda>e. e\<lparr>tabindex := Some ''1''\<rparr>) d)"
    have g: "getCanvas d = (Inr (c\<lparr>tabindex := Some ''1''\<rparr>), ?d1)"
      by (rule getCanvas_found[OF c])
    then have h: "hasFocus d = (Inr (activeElement d = Some (uid c)), ?d1)"
      by (simp add: hasFocus_def Let_def)
    moreover have "activeElement ?d1 = Some (uid c)"
      by (simp add: focus_def activeElement_def)
    moreover from again[OF g] have "fst (hasFocus ?d1) = Inr True" .
    ultimately show ?thesis by simp
  qed
  have absent: "fst (hasFocus d') = Inr False \<and>
      activeElement (snd (hasFocus d')) = Some (next_uid d') \<and>
      fst (hasFocus (snd (hasFocus d'))) = Inr True"
    if n: "getElementById d' CANVAS_ID = None" and b: "body d' \<noteq> None"
      and a: "activeElement d' \<noteq> Some (next_uid d')"
  proof -
    from getCanvas_created[OF n b] obtain c1 d2 where
      c1: "c1 = (fst (createElement ''canvas'' d'))\<lparr>eid := CANVAS_ID, tabindex := Some ''1''\<rparr>"
      and g: "getCanvas d' = (Inr c1, focus c1 (modify CANVAS_ID (\<lambda>e. e\<lparr>tabindex := Some ''1''\<rparr>) d2))"
      by blast
    have u: "uid c1 = next_uid d'" by (simp add: c1 createElement_def)
    from g have h: "hasFocus d' = (Inr (activeElement d' = Some (uid c1)),
        focus c1 (modify CANVAS_ID (\<lambda>e. e\<lparr>tabindex := Some ''1''\<rparr>) d2))"
      by (simp add: hasFocus_def Let_def)
    moreover have "activeElement (focus c1 (modify CANVAS_ID (\<lambda>e. e\<lparr>tabindex := Some ''1''\<rparr>) d2))
        = Some (uid c1)"
      by (simp add: focus_def activeElement_def)
    moreover from again[OF g]
    have "fst (hasFocus (focus c1 (modify CANVAS_ID (\<lambda>e. e\<lparr>tabindex := Some ''1''\<rparr>) d2))) = Inr True" .
    ultimately show ?thesis using a u by simp
  qed
  from found absent show ?thesis by blast
qed

theorem hasFocus_reports_focus_before_call_witness:
  "getElementById linked_page CANVAS_ID = Some (element 4 ''canvas'' CANVAS_ID no_methods) \<and>
   activeElement linked_page = Some 5 \<and>
   fst (hasFocus linked_page) = Inr False \<and>
   activeElement (snd (hasFocus linked_page)) = Some 4 \<and>
   fst (hasFocus (snd (hasFocus linked_page))) = Inr True \<and>
   getElementById (page no_methods []) CANVAS_ID = None \<and>
   body (page no_methods []) \<noteq> None \<and>
   activeElement (page no_methods []) \<noteq> Some (next_uid (page no_methods [])) \<and>
   fst (hasFocus (page no_methods [])) = Inr False \<and>
   activeElement (snd (hasFocus (page no_methods []))) = Some 10 \<and>
   fst (hasFocus (snd (hasFocus (page no_methods [])))) = Inr True"
proof -
  have found: "getElementById linked_page CANVAS_ID = Some (element 4 ''canvas'' CANVAS_ID no_methods)"
    by code_simp
  have link: "activeElement linked_page = Some 5" "uid (element 4 ''canvas'' CANVAS_ID no_methods) = 4"
    by code_simp+
  have absent: "getElementById (page no_methods []) CANVAS_ID = None"
    by code_simp
  have body: "body (page no_methods []) \<noteq> None"
    by code_simp
  have fresh: "activeElement (page no_methods []) \<noteq> Some (next_uid (page no_methods []))"
    "next_uid (page no_methods []) = 10"
    by code_simp+
  from hasFocus_reports_focus_before_call
    [of linked_page "element 4 ''canvas'' CANVAS_ID no_methods" "page no_methods []"]
    found link absent body fresh
  show ?thesis by simp
qed

text \<open>
  Claim C9, as stated, fails for \<^verbatim>\<open>getSurface\<close>: once the Surface is cached,
  \<^verbatim>\<open>getSurface()\<close> does not call \<^verbatim>\<open>getCanvas\<close>, and a focus that has gone elsewhere stays
  where it is.
\<close>

theorem getSurface_cached_leaves_focus:
  "SURFACE cached_state = Some 0 \<and>
   fst (getSurface cached_state) = Inr 0 \<and>
   activeElement (doc cached_state) = Some 5 \<and>
   map_option uid (getElementById (doc (snd (getSurface cached_state))) CANVAS_ID) = Some 4 \<and>
   activeElement (doc (snd (getSurface cached_state))) = Some 5 \<and>
   \<not> canvas_focused (doc (snd (getSurface cached_state)))"
  by code_simp

text \<open>
  Claim C9, amended. \<^verbatim>\<open>_hasFocus\<close>, \<^verbatim>\<open>_getCanvasOffset\<close>, \<^verbatim>\<open>setMode\<close> and \<^verbatim>\<open>init\<close>,
  whenever they return, leave the canvas with its tabindex set and as the active element.
  \<^verbatim>\<open>getSurface\<close> does so on the call that makes the Surface; with a cached Surface it
  leaves the whole state as it is.
\<close>

theorem calls_focus_canvas:
  "(fst (hasFocus d) = Inr b \<longrightarrow> canvas_focused (snd (hasFocus d))) \<and>
   (fst (getCanvasOffset d) = Inr xy \<longrightarrow> canvas_focused (snd (getCanvasOffset d))) \<and>
   (fst (setMode dims fl s) = Inr r \<longrightarrow> canvas_focused (doc (snd (setMode dims fl s)))) \<and>
   (fst (init s) = Inr u \<longrightarrow> canvas_focused (doc (snd (init s)))) \<and>
   (SURFACE s = None \<longrightarrow> fst (getSurface s) = Inr r' \<longrightarrow>
      canvas_focused (doc (snd (getSurface s)))) \<and>
   (SURFACE t \<noteq> None \<longrightarrow> snd (getSurface t) = t)"
proof (intro conjI impI)
  assume "fst (hasFocus d) = Inr b"
  from hasFocus_Inr[OF this] show "canvas_focused (snd (hasFocus d))"
    by (auto dest: getCanvas_focuses)
next
  assume "fst (getCanvasOffset d) = Inr xy"
  from getCanvasOffset_Inr[OF this] show "canvas_focused (snd (getCanvasOffset d))"
    by (auto dest: getCanvas_focuses)
next
  assume "fst (setMode dims fl s) = Inr r"
  then show "canvas_focused (doc (snd (setMode dims fl s)))" by (rule setMode_Inr)
next
  assume "fst (init s) = Inr u"
  then show "canvas_focused (doc (snd (init s)))" by (rule init_Inr)
next
  assume "SURFACE s = None" "fst (getSurface s) = Inr r'"
  from getSurface_Inr_fresh[OF this] show "canvas_focused (doc (snd (getSurface s)))"
    by (auto dest: getCanvas_focuses)
next
  assume "SURFACE t \<noteq> None"
  then show "snd (getSurface t) = t" by (auto simp: getSurface_cached)
qed

theorem calls_focus_canvas_witness:
  "fst (hasFocus linked_page) = Inr False \<and>
   canvas_focused (snd (hasFocus linked_page)) \<and>
   fst (getCanvasOffset linked_page) = Inr (0, 0) \<and>
   canvas_focused (snd (getCanvasOffset linked_page)) \<and>
   fst (setMode (640, 480) None (loaded linked_page)) = Inr 0 \<and>
   canvas_focused (doc (snd (setMode (640, 480) None (loaded linked_page)))) \<and>
   fst (init (loaded linked_page)) = Inr () \<and>
   canvas_focused (doc (snd (init (loaded linked_page)))) \<and>
   SURFACE (loaded linked_page) = None \<and>
   fst (getSurface (loaded linked_page)) = Inr 0 \<and>
   canvas_focused (doc (snd (getSurface (loaded linked_page)))) \<and>
   SURFACE cached_state \<noteq> None \<and>
   snd (getSurface cached_state) = cached_state"
proof -
  have a: "fst (hasFocus linked_page) = Inr False" by code_simp
  have b: "fst (getCanvasOffset linked_page) = Inr (0, 0)"
    by (simp add: getCanvasOffset_def getCanvas_def linked_page_def page_def getElementById_def
        element_def CANVAS_ID_def focus_def modify_def Let_def)
  have c: "fst (setMode (640, 480) None (loaded linked_page)) = Inr 0" by code_simp
  have d: "fst (init (loaded linked_page)) = Inr ()" by code_simp
  have e: "SURFACE (loaded linked_page) = None" by code_simp
  have f: "fst (getSurface (loaded linked_page)) = Inr 0" by code_simp
  have g: "SURFACE cached_state \<noteq> None" by code_simp
  from calls_focus_canvas[of linked_page False "(0, 0)" "(640, 480)" None "loaded linked_page" 0
      "()" 0 cached_state] a b c d e f g
  show ?thesis by simp
qed

subsection \<open>The display mode\<close>

text \<open>
  Claim C2, as stated, fails for dimensions that a canvas does not take: after
  \<^verbatim>\<open>setMode([2147483648, 4294967776])\<close> on a blank page the canvas is 300 wide and 480
  high, and after \<^verbatim>\<open>setMode([-5, -7])\<close> it is 300 wide and 150 high.
\<close>

theorem setMode_size_out_of_range:
  "fst (setMode (2147483648, 4294967776) None (loaded (page no_methods []))) = Inr 0 \<and>
   map_option width (getElementById
     (doc (snd (setMode (2147483648, 4294967776) None (loaded (page no_methods []))))) CANVAS_ID)
     = Some (Some 300) \<and>
   map_option height (getElementById
     (doc (snd (setMode (2147483648, 4294967776) None (loaded (page no_methods []))))) CANVAS_ID)
     = Some (Some 480) \<and>
   map_option width (getElementById
     (doc (snd (setMode (- 5, - 7) None (loaded (page no_methods []))))) CANVAS_ID)
     = Some (Some 300) \<and>
   map_option height (getElementById
     (doc (snd (setMode (- 5, - 7) None (loaded (page no_methods []))))) CANVAS_ID)
     = Some (Some 150)"
  by code_simp

text \<open>
  Claim C2, amended. Let the document have the canvas, or a body to put a new one in, and
  let the element with the canvas id, if the Surface has yet to be made from it, be a
  canvas element. Then for all integers \<open>w\<close>, \<open>h\<close> and all flags,
  \<^verbatim>\<open>setMode([w, h], flags)\<close> returns a Surface \<open>r\<close>, which is the one in \<^verbatim>\<open>SURFACE\<close>
  afterwards: the cached one, untouched, if there was one, and otherwise a new one, made
  on this call with the smoothing the flags ask for. After the call the smoothing flag is
  \<open>flags !== DISABLE_SMOOTHING\<close>, the canvas has width \<open>w\<close> if \<open>0 \<le> w \<le> 2147483647\<close>
  and height \<open>h\<close> if \<open>0 \<le> h \<le> 2147483647\<close>. Whatever \<open>w\<close> and \<open>h\<close> are, a canvas
  element takes them modulo \<open>2^32\<close> and replaces what is then above 2147483647 by its
  default, 300 for the width and 150 for the height.
\<close>

theorem setMode_sets_size_and_smoothing:
  assumes "canvas_available (doc s)"
    and "SURFACE s \<noteq> None \<or>
         (case getElementById (doc s) CANVAS_ID of None \<Rightarrow> True | Some c \<Rightarrow> tag c = ''canvas'')"
  shows "\<exists>r c. fst (setMode (w, h) fl s) = Inr r \<and>
           SURFACE (snd (setMode (w, h) fl s)) = Some r \<and>
           (SURFACE s \<noteq> None \<longrightarrow> SURFACE s = Some r \<and>
              surfaces (snd (setMode (w, h) fl s)) = surfaces s) \<and>
           (SURFACE s = None \<longrightarrow> r = length (surfaces s) \<and>
              length (surfaces (snd (setMode (w, h) fl s))) = Suc (length (surfaces s)) \<and>
              smoothing (surfaces (snd (setMode (w, h) fl s)) ! r)
                = Some (fl \<noteq> Some DISABLE_SMOOTHING)) \<and>
           getElementById (doc (snd (setMode (w, h) fl s))) CANVAS_ID = Some c \<and>
           (0 \<le> w \<and> w \<le> 2147483647 \<longrightarrow> width c = Some w) \<and>
           (0 \<le> h \<and> h \<le> 2147483647 \<longrightarrow> height c = Some h) \<and>
           (tag c = ''canvas'' \<longrightarrow>
              width c = Some (reflect_dimension 300 w) \<and>
              height c = Some (reflect_dimension 150 h)) \<and>
           isSmoothingEnabled (snd (setMode (w, h) fl s)) = (fl \<noteq> Some DISABLE_SMOOTHING)"
proof -
  from assms(1) have "getElementById (doc s) CANVAS_ID \<noteq> None \<or> body (doc s) \<noteq> None"
    by (simp add: canvas_available_def)
  from getCanvas_ok[OF this] obtain c1 d1 where g: "getCanvas (doc s) = (Inr c1, d1)"
    by blast
  from getCanvas_Inr[OF g] have c1: "getElementById d1 CANVAS_ID = Some c1" by simp
  define c3 where "c3 = set_height h (set_width w c1)"
  define d3 where "d3 = modify CANVAS_ID (set_height h) (modify CANVAS_ID (set_width w) d1)"
  define s' where "s' = s\<lparr>doc := d3, SURFACE_SMOOTHING := (fl \<noteq> Some DISABLE_SMOOTHING)\<rparr>"
  have sm: "setMode (w, h) fl s = getSurface s'"
    using g by (simp add: setMode_def Let_def d3_def s'_def)
  have g3: "getElementById d3 CANVAS_ID = Some c3"
    unfolding d3_def c3_def using c1 by (simp add: canvas_modify)
  have size: "0 \<le> w \<and> w \<le> 2147483647 \<longrightarrow> width c3 = Some w"
    "0 \<le> h \<and> h \<le> 2147483647 \<longrightarrow> height c3 = Some h"
    "tag c3 = ''canvas'' \<longrightarrow>
       width c3 = Some (reflect_dimension 300 w) \<and> height c3 = Some (reflect_dimension 150 h)"
    by (simp_all add: c3_def dimensions_set reflect_in_range)
  show ?thesis
  proof (cases "SURFACE s")
    case (Some r)
    then have "getSurface s' = (Inr r, s')"
      by (intro getSurface_cached) (simp add: s'_def)
    with sm Some g3 size show ?thesis
      by (simp add: s'_def isSmoothingEnabled_def)
  next
    case None
    with assms(2) have "tag c1 = ''canvas''"
      using getCanvas_tag[OF g] by (auto split: option.splits)
    then have t3: "tag (c3\<lparr>tabindex := Some ''1''\<rparr>) = ''canvas''" by (simp add: c3_def)
    have size': "0 \<le> w \<and> w \<le> 2147483647 \<longrightarrow> width (c3\<lparr>tabindex := Some ''1''\<rparr>) = Some w"
      "0 \<le> h \<and> h \<le> 2147483647 \<longrightarrow> height (c3\<lparr>tabindex := Some ''1''\<rparr>) = Some h"
      "width (c3\<lparr>tabindex := Some ''1''\<rparr>) = Some (reflect_dimension 300 w) \<and>
       height (c3\<lparr>tabindex := Some ''1''\<rparr>) = Some (reflect_dimension 150 h)"
      using size t3 by simp_all
    let ?d4 = "focus (c3\<lparr>tabindex := Some ''1''\<rparr>)
      (modify CANVAS_ID (\<lambda>e. e\<lparr>tabindex := Some ''1''\<rparr>) d3)"
    have g4: "getCanvas (doc s') = (Inr (c3\<lparr>tabindex := Some ''1''\<rparr>), ?d4)"
      using getCanvas_found[OF g3] by (simp add: s'_def)
    have n': "SURFACE s' = None" using None by (simp add: s'_def)
    from getSurface_creates[OF n' g4 t3] obtain s'' where
      r: "getSurface s' = (Inr (length (surfaces s')), s'')" and d: "doc s'' = ?d4"
      and v: "SURFACE s'' = Some (length (surfaces s'))"
        "SURFACE_SMOOTHING s'' = SURFACE_SMOOTHING s'"
        "length (surfaces s'') = Suc (length (surfaces s'))"
        "smoothing (surfaces s'' ! length (surfaces s')) = Some (SURFACE_SMOOTHING s')"
      by blast
    from getCanvas_Inr[OF g4] have "getElementById ?d4 CANVAS_ID = Some (c3\<lparr>tabindex := Some ''1''\<rparr>)"
      by simp
    with sm r d v None size' show ?thesis
      by (simp add: s'_def isSmoothingEnabled_def)
  qed
qed

theorem setMode_sets_size_and_smoothing_witness:
  "canvas_available (doc (loaded (page no_methods []))) \<and>
   SURFACE (loaded (page no_methods [])) = None \<and>
   getElementById (doc (loaded (page no_methods []))) CANVAS_ID = None \<and>
   fst (setMode (640, 480) (Some DISABLE_SMOOTHING) (loaded (page no_methods []))) = Inr 0 \<and>
   SURFACE (snd (setMode (640, 480) (Some DISABLE_SMOOTHING) (loaded (page no_methods [])))) = Some 0 \<and>
   map smoothing (surfaces (snd (setMode (640, 480) (Some DISABLE_SMOOTHING)
     (loaded (page no_methods []))))) = [Some False] \<and>
   map_option width (getElementById (doc (snd (setMode (640, 480) (Some DISABLE_SMOOTHING)
     (loaded (page no_methods []))))) CANVAS_ID) = Some (Some 640) \<and>
   map_option height (getElementById (doc (snd (setMode (640, 480) (Some DISABLE_SMOOTHING)
     (loaded (page no_methods []))))) CANVAS_ID) = Some (Some 480) \<and>
   \<not> isSmoothingEnabled (snd (setMode (640, 480) (Some DISABLE_SMOOTHING)
     (loaded (page no_methods []))))"
proof -
  let ?s = "loaded (page no_methods [])"
  let ?s' = "snd (setMode (640, 480) (Some DISABLE_SMOOTHING) ?s)"
  have a: "canvas_available (doc ?s)" by code_simp
  have n: "SURFACE ?s = None" by (simp add: loaded_def)
  have e: "getElementById (doc ?s) CANVAS_ID = None" by code_simp
  then have t: "SURFACE ?s \<noteq> None \<or>
      (case getElementById (doc ?s) CANVAS_ID of None \<Rightarrow> True | Some c \<Rightarrow> tag c = ''canvas'')"
    by simp
  have l: "surfaces ?s = []" by (simp add: loaded_def)
  from setMode_sets_size_and_smoothing[OF a t, of 640 480 "Some DISABLE_SMOOTHING"] n l
  obtain c where "fst (setMode (640, 480) (Some DISABLE_SMOOTHING) ?s) = Inr 0"
    "SURFACE ?s' = Some 0" "length (surfaces ?s') = Suc 0"
    "smoothing (surfaces ?s' ! 0) = Some False"
    "getElementById (doc ?s') CANVAS_ID = Some c" "width c = Some 640" "height c = Some 480"
    "\<not> isSmoothingEnabled ?s'"
    by auto
  moreover from this(3,4) have "map smoothing (surfaces ?s') = [Some False]"
    by (cases "surfaces ?s'") simp_all
  ultimately show ?thesis using a n e by simp
qed

subsection \<open>Initialisation\<close>

text \<open>
  Claim C6. Let the document have its document element, which is not the canvas, let it
  have the canvas or a body, and let it have at most one element of each of the ids of
  the wrapper, the toggle and the canvas. Then for every \<open>n \<ge> 1\<close>, \<open>n\<close> calls of
  \<^verbatim>\<open>init()\<close> all return, and leave exactly one wrapper, one toggle and one canvas. No
  element with an id went away, and none came but one for an id that had none.
\<close>

theorem init_idempotent:
  assumes "rooted (doc s)" and "canvas_available (doc s)"
    and "count_id WRAPPER_ID (children (doc s)) \<le> 1"
    and "count_id TOGGLE_ID (children (doc s)) \<le> 1"
    and "count_id CANVAS_ID (children (doc s)) \<le> 1"
    and "0 < n"
  shows "fst (init_times n s) = Inr () \<and>
         count_id WRAPPER_ID (children (doc (snd (init_times n s)))) = 1 \<and>
         count_id TOGGLE_ID (children (doc (snd (init_times n s)))) = 1 \<and>
         count_id CANVAS_ID (children (doc (snd (init_times n s)))) = 1 \<and>
         (\<forall>j. j \<noteq> [] \<longrightarrow> kept_or_created j (doc s) (doc (snd (init_times n s))))"
proof -
  let ?d' = "doc (snd (init_times n s))"
  from init_times_spec[OF assms(1,2), of n] assms(6)
  have ok: "fst (init_times n s) = Inr ()"
    and k: "\<And>j. j \<noteq> [] \<Longrightarrow> kept_or_created j (doc s) ?d'"
    and p: "0 < count_id WRAPPER_ID (children ?d')" "0 < count_id TOGGLE_ID (children ?d')"
      "0 < count_id CANVAS_ID (children ?d')"
    by simp_all
  have "count_id WRAPPER_ID (children ?d') = 1"
    using k[of WRAPPER_ID] p(1) assms(3) by (simp add: kept_or_created_def ids_differ)
  moreover have "count_id TOGGLE_ID (children ?d') = 1"
    using k[of TOGGLE_ID] p(2) assms(4) by (simp add: kept_or_created_def ids_differ)
  moreover have "count_id CANVAS_ID (children ?d') = 1"
    using k[of CANVAS_ID] p(3) assms(5) by (simp add: kept_or_created_def ids_differ)
  ultimately show ?thesis using ok k by simp
qed

theorem init_idempotent_witness:
  "rooted (doc (loaded (page no_methods []))) \<and>
   canvas_available (doc (loaded (page no_methods []))) \<and>
   count_id WRAPPER_ID (children (doc (loaded (page no_methods [])))) \<le> 1 \<and>
   count_id TOGGLE_ID (children (doc (loaded (page no_methods [])))) \<le> 1 \<and>
   count_id CANVAS_ID (children (doc (loaded (page no_methods [])))) \<le> 1 \<and>
   fst (init_times 3 (loaded (page no_methods []))) = Inr () \<and>
   count_id WRAPPER_ID (children (doc (snd (init_times 3 (loaded (page no_methods [])))))) = 1 \<and>
   count_id TOGGLE_ID (children (doc (snd (init_times 3 (loaded (page no_methods [])))))) = 1 \<and>
   count_id CANVAS_ID (children (doc (snd (init_times 3 (loaded (page no_methods [])))))) = 1"
proof -
  let ?s = "loaded (page no_methods [])"
  have r: "rooted (doc ?s)" by code_simp
  have a: "canvas_available (doc ?s)" by code_simp
  have c: "count_id WRAPPER_ID (children (doc ?s)) \<le> 1"
    "count_id TOGGLE_ID (children (doc ?s)) \<le> 1"
    "count_id CANVAS_ID (children (doc ?s)) \<le> 1"
    by code_simp+
  have n: "0 < (3::nat)" by simp
  from init_idempotent[OF r a c n] r a c show ?thesis by simp
qed
end
